theory Spec2Isabelle
  imports Complex_Main
begin

section \<open>Fund collector (node\_manager/services/collector.py)\<close>

subsection \<open>Data\<close>

text \<open>
  Amounts are Python floats. Their type is left open: \<open>'n\<close> is any type with a zero,
  an addition, a subtraction and the two comparisons, and no law of arithmetic is assumed of
  them, so every statement below holds of the program's own operations, rounding included.
  Exceptions are values: an exception carries the text that \<open>str(e)\<close> yields.
\<close>

datatype exn = Exception (message: string)

text \<open>
  A UTXO dictionary as the collector reads it: \<open>u['txid']\<close>, \<open>u['vout']\<close>,
  \<open>u['amount']\<close> and \<open>u.get('confirmations', 0)\<close>, the last key being optional.
\<close>

record 'n utxo =
  utxo_txid :: string
  utxo_vout :: nat
  utxo_amount :: 'n
  utxo_confirmations :: "int option"

definition confirmations_of :: "'n utxo \<Rightarrow> int" where
  "confirmations_of u = (case utxo_confirmations u of None \<Rightarrow> 0 | Some n \<Rightarrow> n)"

datatype tx_input = TxInput (input_txid: string) (input_vout: nat)

text \<open>The dictionary returned by \<open>sign_raw_transaction\<close>; both keys may be absent.\<close>

record signed_tx =
  signed_hex :: "string option"
  signed_complete :: "bool option"

definition is_complete :: "signed_tx \<Rightarrow> bool" where
  "is_complete sg = (case signed_complete sg of None \<Rightarrow> False | Some b \<Rightarrow> b)"

text \<open>
  The node is an external collaborator. Every request the collector awaits is recorded
  in a trace of calls, and the node's answer may depend on the calls made so far, so a
  node with state of its own is covered. A call either raises (\<open>Inl\<close>) or returns.
\<close>

datatype 'n call =
    GetAddressUtxos string
  | CreateRawTransaction "tx_input list" "string \<times> 'n"
  | SignRawTransaction string "string list"
  | SendTransaction string

record 'n node =
  get_address_utxos :: "'n call list \<Rightarrow> string \<Rightarrow> exn + 'n utxo list"
  create_raw_transaction :: "'n call list \<Rightarrow> tx_input list \<Rightarrow> string \<times> 'n \<Rightarrow> exn + string"
  sign_raw_transaction :: "'n call list \<Rightarrow> string \<Rightarrow> string list \<Rightarrow> exn + signed_tx"
  send_transaction :: "'n call list \<Rightarrow> string \<Rightarrow> exn + string"

record 'n funds_collector =
  master_address :: string
  collection_fee :: 'n
  min_collection_amount :: 'n
  is_processing :: bool

text \<open>
  The constructor. Its defaults are the decimal literals 0.001 and 0.0001, written here
  as real numbers.
\<close>

definition init_collector :: "string \<Rightarrow> real \<Rightarrow> real funds_collector" where
  "init_collector master fee =
     \<lparr>master_address = master, collection_fee = fee,
      min_collection_amount = 1 / 1000, is_processing = False\<rparr>"

definition default_fee :: real where
  "default_fee = 1 / 10000"

text \<open>
  The two result dictionaries of \<open>collect_from_address\<close>: the one built after the
  broadcast and the one built in the exception handler.
\<close>

datatype 'n collection_result =
    Collected (r_txid: string) (r_from_address: string) (r_to_address: string)
      (r_amount: 'n) (r_fee: 'n) (r_total: 'n) (r_utxo_count: nat) (r_timestamp: 'n)
  | Failed (r_error: string) (r_failed_address: string)

fun result_success :: "'n collection_result \<Rightarrow> bool" where
  "result_success (Collected t f m a fe tot n ts) = True"
| "result_success (Failed e f) = False"

text \<open>\<open>result.get('txid')\<close>: the failure dictionary has no such key.\<close>

fun result_txid :: "'n collection_result \<Rightarrow> string option" where
  "result_txid (Collected t f m a fe tot n ts) = Some t"
| "result_txid (Failed e f) = None"

fun result_from_address :: "'n collection_result \<Rightarrow> string" where
  "result_from_address (Collected t f m a fe tot n ts) = f"
| "result_from_address (Failed e f) = f"

text \<open>\<open>result.get('amount', 0)\<close> and \<open>result.get('fee', 0)\<close>.\<close>

fun result_amount :: "('n::zero) collection_result \<Rightarrow> 'n" where
  "result_amount (Collected t f m a fe tot n ts) = a"
| "result_amount (Failed e f) = 0"

fun result_fee :: "('n::zero) collection_result \<Rightarrow> 'n" where
  "result_fee (Collected t f m a fe tot n ts) = fe"
| "result_fee (Failed e f) = 0"

subsection \<open>collect\_from\_address\<close>

text \<open>
  Step 7 of the job. \<open>if private_key:\<close> is false for \<open>None\<close> and for the empty
  string. An incomplete signature returns \<open>None\<close> from the job (\<open>Inr None\<close>);
  \<open>signed_tx['hex']\<close> raises \<open>KeyError\<close> when the key is absent.
\<close>

definition key_error_hex :: exn where
  "key_error_hex = Exception (CHR 0x27 # ''hex'' @ [CHR 0x27])"

definition sign_step ::
  "'n node \<Rightarrow> string \<Rightarrow> string option \<Rightarrow> 'n call list \<Rightarrow>
   (exn + string option) \<times> 'n call list" where
  "sign_step nd raw_tx private_key tr =
     (case private_key of
        None \<Rightarrow> (Inr (Some raw_tx), tr)
      | Some k \<Rightarrow>
          if k = [] then (Inr (Some raw_tx), tr)
          else
            (case sign_raw_transaction nd tr raw_tx [k] of
               Inl e \<Rightarrow> (Inl e, tr @ [SignRawTransaction raw_tx [k]])
             | Inr signed \<Rightarrow>
                 if \<not> is_complete signed
                 then (Inr None, tr @ [SignRawTransaction raw_tx [k]])
                 else
                   (case signed_hex signed of
                      None \<Rightarrow> (Inl key_error_hex, tr @ [SignRawTransaction raw_tx [k]])
                    | Some h \<Rightarrow> (Inr (Some h), tr @ [SignRawTransaction raw_tx [k]]))))"

text \<open>Step 8 and 9: broadcast and build the success dictionary.\<close>

definition send_step ::
  "'n node \<Rightarrow> ('n call list \<Rightarrow> 'n) \<Rightarrow> 'n funds_collector \<Rightarrow> string \<Rightarrow> 'n \<Rightarrow> 'n \<Rightarrow> nat \<Rightarrow>
   string \<Rightarrow> 'n call list \<Rightarrow> (exn + 'n collection_result option) \<times> 'n call list" where
  "send_step nd clock c source_address amount_to_send total_amount n raw_tx tr =
     (case send_transaction nd tr raw_tx of
        Inl e \<Rightarrow> (Inl e, tr @ [SendTransaction raw_tx])
      | Inr txid \<Rightarrow>
          (Inr (Some (Collected txid source_address (master_address c) amount_to_send
                   (collection_fee c) total_amount n (clock (tr @ [SendTransaction raw_tx])))),
           tr @ [SendTransaction raw_tx]))"

text \<open>
  Python's \<open>sum\<close>: it starts from 0 and adds the items from left to right.
\<close>

definition py_sum :: "('n::{zero,plus}) list \<Rightarrow> 'n" where
  "py_sum xs = foldl (+) 0 xs"

text \<open>
  The body of the \<open>try\<close> block: \<open>Inl e\<close> is an exception leaving the block,
  \<open>Inr None\<close> a \<open>return None\<close>, \<open>Inr (Some r)\<close> the returned dictionary.
\<close>

definition collect_body ::
  "('n::{zero,plus,minus,ord}) node \<Rightarrow> ('n call list \<Rightarrow> 'n) \<Rightarrow> 'n funds_collector \<Rightarrow> string \<Rightarrow>
   string option \<Rightarrow> 'n call list \<Rightarrow> (exn + 'n collection_result option) \<times> 'n call list" where
  "collect_body nd clock c source_address private_key tr =
     (case get_address_utxos nd tr source_address of
        Inl e \<Rightarrow> (Inl e, tr @ [GetAddressUtxos source_address])
      | Inr utxos \<Rightarrow>
          if utxos = [] then (Inr None, tr @ [GetAddressUtxos source_address])
          else
            let confirmed_utxos = filter (\<lambda>u. confirmations_of u \<ge> 1) utxos in
            if confirmed_utxos = [] then (Inr None, tr @ [GetAddressUtxos source_address])
            else
              let total_amount = py_sum (map utxo_amount confirmed_utxos) in
              if total_amount < min_collection_amount c
              then (Inr None, tr @ [GetAddressUtxos source_address])
              else
                let amount_to_send = total_amount - collection_fee c in
                if amount_to_send \<le> 0 then (Inr None, tr @ [GetAddressUtxos source_address])
                else
                  let inputs = map (\<lambda>u. TxInput (utxo_txid u) (utxo_vout u)) confirmed_utxos;
                      outputs = (master_address c, amount_to_send);
                      tr1 = tr @ [GetAddressUtxos source_address];
                      tr2 = tr1 @ [CreateRawTransaction inputs outputs]
                  in
                    (case create_raw_transaction nd tr1 inputs outputs of
                       Inl e \<Rightarrow> (Inl e, tr2)
                     | Inr raw_tx \<Rightarrow>
                         (case sign_step nd raw_tx private_key tr2 of
                            (Inl e, tr3) \<Rightarrow> (Inl e, tr3)
                          | (Inr None, tr3) \<Rightarrow> (Inr None, tr3)
                          | (Inr (Some raw_tx'), tr3) \<Rightarrow>
                              send_step nd clock c source_address amount_to_send total_amount
                                (length confirmed_utxos) raw_tx' tr3)))"

text \<open>
  The guard at the head of the method (lines 40 to 44): a busy collector turns the call
  away, a free one is marked busy. The \<open>finally\<close> clause clears the mark.
\<close>

definition acquire :: "'n funds_collector \<Rightarrow> 'n funds_collector option" where
  "acquire c = (if is_processing c then None else Some (c\<lparr>is_processing := True\<rparr>))"

definition release :: "'n funds_collector \<Rightarrow> 'n funds_collector" where
  "release c = c\<lparr>is_processing := False\<rparr>"

text \<open>
  The whole method: the guard, the \<open>try\<close> block, the handler that turns an exception
  into the failure dictionary, and the \<open>finally\<close> clause. The state is the collector
  together with the trace of node calls.
\<close>

definition collect_from_address ::
  "('n::{zero,plus,minus,ord}) node \<Rightarrow> ('n call list \<Rightarrow> 'n) \<Rightarrow> string \<Rightarrow> string option \<Rightarrow>
   'n funds_collector \<times> 'n call list \<Rightarrow>
   'n collection_result option \<times> 'n funds_collector \<times> 'n call list" where
  "collect_from_address nd clock source_address private_key s =
     (case s of (c, tr) \<Rightarrow>
        (case acquire c of
           None \<Rightarrow> (None, c, tr)
         | Some c1 \<Rightarrow>
             (case collect_body nd clock c1 source_address private_key tr of
                (Inr r, tr') \<Rightarrow> (r, release c1, tr')
              | (Inl e, tr') \<Rightarrow>
                  (Some (Failed (message e) source_address), release c1, tr'))))"

text \<open>
  A job is suspended at each of its \<open>await\<close>s, and only there can another coroutine
  run. \<open>in_flight\<close> lists what such a coroutine finds, one entry per node call of the
  job: the collector as the guard left it, and the trace up to the pending call.
\<close>

definition in_flight ::
  "('n::{zero,plus,minus,ord}) node \<Rightarrow> ('n call list \<Rightarrow> 'n) \<Rightarrow> string \<Rightarrow> string option \<Rightarrow>
   'n funds_collector \<times> 'n call list \<Rightarrow> ('n funds_collector \<times> 'n call list) list" where
  "in_flight nd clock source_address private_key s =
     (case s of (c, tr) \<Rightarrow>
        (case acquire c of
           None \<Rightarrow> []
         | Some c1 \<Rightarrow>
             (case collect_body nd clock c1 source_address private_key tr of
                (r, tr') \<Rightarrow> map (\<lambda>n. (c1, take n tr')) [Suc (length tr)..<Suc (length tr')])))"

text \<open>The calls a job added to the trace.\<close>

definition calls_since :: "'n call list \<Rightarrow> 'n call list \<Rightarrow> 'n call list" where
  "calls_since tr tr' = drop (length tr) tr'"

fun is_send :: "'n call \<Rightarrow> bool" where
  "is_send (SendTransaction h) = True"
| "is_send c = False"

fun is_create :: "'n call \<Rightarrow> bool" where
  "is_create (CreateRawTransaction i out) = True"
| "is_create c = False"

fun is_sign :: "'n call \<Rightarrow> bool" where
  "is_sign (SignRawTransaction h ks) = True"
| "is_sign c = False"

subsection \<open>Configuration setters\<close>

definition set_fee :: "('n::{zero,ord}) \<Rightarrow> 'n funds_collector \<Rightarrow> exn + 'n funds_collector" where
  "set_fee fee c =
     (if fee < 0 then Inl (Exception ''Fee cannot be negative'')
      else Inr (c\<lparr>collection_fee := fee\<rparr>))"

definition set_min_amount ::
  "('n::{zero,ord}) \<Rightarrow> 'n funds_collector \<Rightarrow> exn + 'n funds_collector" where
  "set_min_amount min_amount c =
     (if min_amount < 0 then Inl (Exception ''Minimum amount cannot be negative'')
      else Inr (c\<lparr>min_collection_amount := min_amount\<rparr>))"

subsection \<open>collect\_multiple\<close>

record 'n batch_result =
  b_total :: nat
  b_successful :: nat
  b_failed :: nat
  b_collections :: "'n collection_result list"
  b_total_collected :: 'n
  b_total_fees :: 'n

text \<open>
  The statements of the loop body after the call: \<open>if result and result.get('success')\<close>
  with its \<open>else\<close>, then \<open>if result: append\<close>. A result dictionary is never empty, so
  \<open>result\<close> is falsy exactly when it is \<open>None\<close>.
\<close>

definition record_result ::
  "('n::{zero,plus}) collection_result option \<Rightarrow> 'n batch_result \<Rightarrow> 'n batch_result" where
  "record_result result results =
     (let results1 =
        (case result of
           None \<Rightarrow> results\<lparr>b_failed := b_failed results + 1\<rparr>
         | Some r \<Rightarrow>
             if result_success r
             then results\<lparr>b_successful := b_successful results + 1,
                          b_total_collected := b_total_collected results + result_amount r,
                          b_total_fees := b_total_fees results + result_fee r\<rparr>
             else results\<lparr>b_failed := b_failed results + 1\<rparr>)
      in
        (case result of
           None \<Rightarrow> results1
         | Some r \<Rightarrow> results1\<lparr>b_collections := b_collections results1 @ [r]\<rparr>))"

text \<open>
  The \<open>try\<close> block of one iteration. \<open>asyncio.sleep(2)\<close> is a pure delay and leaves
  no mark on the state. No statement of the block raises in this model, so the block
  always ends with \<open>Inr\<close>; the handler is kept as the source has it.
\<close>

definition collect_item_body ::
  "('n::{zero,plus,minus,ord}) node \<Rightarrow> ('n call list \<Rightarrow> 'n) \<Rightarrow> (string \<rightharpoonup> string) \<Rightarrow> string \<Rightarrow>
   'n batch_result \<Rightarrow>
   'n funds_collector \<times> 'n call list \<Rightarrow>
   (exn + 'n batch_result) \<times> 'n funds_collector \<times> 'n call list" where
  "collect_item_body nd clock private_keys address results s =
     (let private_key = private_keys address in
      case collect_from_address nd clock address private_key s of
        (result, s') \<Rightarrow> (Inr (record_result result results), s'))"

definition collect_item ::
  "('n::{zero,plus,minus,ord}) node \<Rightarrow> ('n call list \<Rightarrow> 'n) \<Rightarrow> (string \<rightharpoonup> string) \<Rightarrow> string \<Rightarrow>
   'n batch_result \<Rightarrow>
   'n funds_collector \<times> 'n call list \<Rightarrow> 'n batch_result \<times> 'n funds_collector \<times> 'n call list" where
  "collect_item nd clock private_keys address results s =
     (case collect_item_body nd clock private_keys address results s of
        (Inr results', s') \<Rightarrow> (results', s')
      | (Inl e, s') \<Rightarrow>
          (results\<lparr>b_failed := b_failed results + 1,
                    b_collections := b_collections results @ [Failed (message e) address]\<rparr>, s'))"

fun collect_loop ::
  "('n::{zero,plus,minus,ord}) node \<Rightarrow> ('n call list \<Rightarrow> 'n) \<Rightarrow> (string \<rightharpoonup> string) \<Rightarrow> string list \<Rightarrow>
   'n batch_result \<Rightarrow>
   'n funds_collector \<times> 'n call list \<Rightarrow> 'n batch_result \<times> 'n funds_collector \<times> 'n call list" where
  "collect_loop nd clock private_keys [] results s = (results, s)"
| "collect_loop nd clock private_keys (address # addresses) results s =
     (case collect_item nd clock private_keys address results s of
        (results', s') \<Rightarrow> collect_loop nd clock private_keys addresses results' s')"

definition collect_multiple ::
  "('n::{zero,plus,minus,ord}) node \<Rightarrow> ('n call list \<Rightarrow> 'n) \<Rightarrow> string list \<Rightarrow>
   (string \<rightharpoonup> string) option \<Rightarrow>
   'n funds_collector \<times> 'n call list \<Rightarrow> 'n batch_result \<times> 'n funds_collector \<times> 'n call list" where
  "collect_multiple nd clock addresses private_keys s =
     (let pks = (case private_keys of None \<Rightarrow> Map.empty | Some m \<Rightarrow> m);
          results = \<lparr>b_total = length addresses, b_successful = 0, b_failed = 0,
                     b_collections = [], b_total_collected = 0, b_total_fees = 0\<rparr>
      in collect_loop nd clock pks addresses results s)"

fun utxo_request :: "'n call \<Rightarrow> string option" where
  "utxo_request (GetAddressUtxos a) = Some a"
| "utxo_request c = None"

section \<open>Transaction monitor (node\_manager/services/monitor.py)\<close>

subsection \<open>Transport (node\_manager/api/websocket.py)\<close>

text \<open>
  The JSON document of a subscription request, before \<open>json.dumps\<close>: its id, its method
  and the list under \<open>params.addresses\<close>.
\<close>

datatype ws_message = WsMessage (msg_id: string) (msg_method: string) (msg_addresses: "string list")

text \<open>
  What the monitor does to the outside world, in order: opening a socket, sending,
  closing, reading the stream until it ends, and the back-off sleep with its delay in
  seconds.
\<close>

datatype ws_event =
    WsConnect string
  | WsSend ws_message
  | WsClose
  | WsListen
  | Sleep nat

text \<open>
  The \<open>websockets\<close> library: each operation may raise (\<open>Some e\<close>), depending on what
  happened before. \<open>t_listen_raises\<close> says whether reading the stream ends by an
  exception (caught inside \<open>WebSocketClient.listen\<close>) or by a normal end of stream.
\<close>

record transport =
  t_connect :: "ws_event list \<Rightarrow> string \<Rightarrow> exn option"
  t_send :: "ws_event list \<Rightarrow> ws_message \<Rightarrow> exn option"
  t_close :: "ws_event list \<Rightarrow> exn option"
  t_listen_raises :: "ws_event list \<Rightarrow> bool"

record ws_client =
  ws_url :: string
  ws_socket :: bool
  ws_connected :: bool

definition new_client :: "string \<Rightarrow> ws_client" where
  "new_client url = \<lparr>ws_url = url, ws_socket = False, ws_connected = False\<rparr>"

definition client_connect ::
  "transport \<Rightarrow> ws_client \<Rightarrow> ws_event list \<Rightarrow> exn option \<times> ws_client \<times> ws_event list" where
  "client_connect t cl tr =
     (case t_connect t tr (ws_url cl) of
        Some e \<Rightarrow> (Some e, cl, tr @ [WsConnect (ws_url cl)])
      | None \<Rightarrow> (None, cl\<lparr>ws_socket := True, ws_connected := True\<rparr>, tr @ [WsConnect (ws_url cl)]))"

definition client_disconnect ::
  "transport \<Rightarrow> ws_client \<Rightarrow> ws_event list \<Rightarrow> exn option \<times> ws_client \<times> ws_event list" where
  "client_disconnect t cl tr =
     (if ws_socket cl
      then (case t_close t tr of
              Some e \<Rightarrow> (Some e, cl, tr @ [WsClose])
            | None \<Rightarrow> (None, cl\<lparr>ws_connected := False\<rparr>, tr @ [WsClose]))
      else (None, cl, tr))"

definition client_send ::
  "transport \<Rightarrow> ws_client \<Rightarrow> ws_message \<Rightarrow> ws_event list \<Rightarrow> exn option \<times> ws_event list" where
  "client_send t cl msg tr =
     (if ws_connected cl \<and> ws_socket cl then (t_send t tr msg, tr @ [WsSend msg])
      else (None, tr))"

definition client_listen :: "transport \<Rightarrow> ws_client \<Rightarrow> ws_event list \<Rightarrow> ws_client \<times> ws_event list" where
  "client_listen t cl tr =
     (if \<not> ws_connected cl \<or> \<not> ws_socket cl then (cl, tr)
      else if t_listen_raises t tr then (cl\<lparr>ws_connected := False\<rparr>, tr @ [WsListen])
      else (cl, tr @ [WsListen]))"

subsection \<open>The monitor\<close>

text \<open>
  \<open>subscribed_addresses\<close> is a Python set. It is kept as a list without duplicates,
  whose order stands for the iteration order of the set; \<open>set_add\<close> and \<open>set_discard\<close>
  are \<open>add\<close> and the guarded \<open>remove\<close>. The counters start at 0 and are only
  incremented, so they are natural numbers.
\<close>

record monitor =
  websocket :: "ws_client option"
  is_connected :: bool
  subscribed_addresses :: "string list"
  running :: bool
  reconnect_delay :: nat
  max_reconnect_attempts :: nat
  reconnect_attempts :: nat

definition init_monitor :: monitor where
  "init_monitor =
     \<lparr>websocket = None, is_connected = False, subscribed_addresses = [], running = False,
      reconnect_delay = 5, max_reconnect_attempts = 10, reconnect_attempts = 0\<rparr>"

definition set_add :: "string \<Rightarrow> string list \<Rightarrow> string list" where
  "set_add a xs = (if a \<in> set xs then xs else xs @ [a])"

definition set_discard :: "string \<Rightarrow> string list \<Rightarrow> string list" where
  "set_discard a xs = (if a \<in> set xs then removeAll a xs else xs)"

definition subscription_message :: "string \<Rightarrow> ws_message" where
  "subscription_message address = WsMessage (''sub_'' @ address) ''subscribeAddresses'' [address]"

definition unsubscription_message :: "string \<Rightarrow> ws_message" where
  "unsubscription_message address =
     WsMessage (''unsub_'' @ address) ''unsubscribeAddresses'' [address]"

definition send_subscription ::
  "transport \<Rightarrow> string \<Rightarrow> monitor \<times> ws_event list \<Rightarrow> exn option \<times> monitor \<times> ws_event list" where
  "send_subscription t address s =
     (case s of (m, tr) \<Rightarrow>
        (case websocket m of
           None \<Rightarrow> (None, m, tr)
         | Some cl \<Rightarrow>
             (case client_send t cl (subscription_message address) tr of
                (r, tr') \<Rightarrow> (r, m, tr'))))"

definition send_unsubscription ::
  "transport \<Rightarrow> string \<Rightarrow> monitor \<times> ws_event list \<Rightarrow> exn option \<times> monitor \<times> ws_event list" where
  "send_unsubscription t address s =
     (case s of (m, tr) \<Rightarrow>
        (case websocket m of
           None \<Rightarrow> (None, m, tr)
         | Some cl \<Rightarrow>
             (case client_send t cl (unsubscription_message address) tr of
                (r, tr') \<Rightarrow> (r, m, tr'))))"

definition subscribe_address ::
  "transport \<Rightarrow> string \<Rightarrow> monitor \<times> ws_event list \<Rightarrow> exn option \<times> monitor \<times> ws_event list" where
  "subscribe_address t address s =
     (case s of (m, tr) \<Rightarrow>
        let m1 = m\<lparr>subscribed_addresses := set_add address (subscribed_addresses m)\<rparr> in
        if is_connected m1 \<and> websocket m1 \<noteq> None then send_subscription t address (m1, tr)
        else (None, m1, tr))"

definition unsubscribe_address ::
  "transport \<Rightarrow> string \<Rightarrow> monitor \<times> ws_event list \<Rightarrow> exn option \<times> monitor \<times> ws_event list" where
  "unsubscribe_address t address s =
     (case s of (m, tr) \<Rightarrow>
        let m1 = m\<lparr>subscribed_addresses := set_discard address (subscribed_addresses m)\<rparr> in
        if is_connected m1 \<and> websocket m1 \<noteq> None then send_unsubscription t address (m1, tr)
        else (None, m1, tr))"

text \<open>The replay loop of \<open>_connect\<close>: it stops at the first send that raises.\<close>

fun replay ::
  "transport \<Rightarrow> string list \<Rightarrow> monitor \<times> ws_event list \<Rightarrow> exn option \<times> monitor \<times> ws_event list" where
  "replay t [] s = (None, s)"
| "replay t (address # addresses) s =
     (case send_subscription t address s of
        (Some e, s') \<Rightarrow> (Some e, s')
      | (None, s') \<Rightarrow> replay t addresses s')"

text \<open>
  \<open>_connect\<close>. The URL is built from the node's configuration and is taken as given.
  The handler of the \<open>try\<close> block sets \<open>connected\<close> to false and re-raises.
\<close>

definition connect ::
  "transport \<Rightarrow> string \<Rightarrow> monitor \<times> ws_event list \<Rightarrow> exn option \<times> monitor \<times> ws_event list" where
  "connect t url s =
     (case s of (m, tr) \<Rightarrow>
        (case client_connect t (new_client url) tr of
           (Some e, cl, tr1) \<Rightarrow> (Some e, m\<lparr>websocket := Some cl, is_connected := False\<rparr>, tr1)
         | (None, cl, tr1) \<Rightarrow>
             (case replay t (subscribed_addresses m)
                     (m\<lparr>websocket := Some cl, is_connected := True, reconnect_attempts := 0\<rparr>, tr1) of
                (Some e, m2, tr2) \<Rightarrow> (Some e, m2\<lparr>is_connected := False\<rparr>, tr2)
              | (None, m2, tr2) \<Rightarrow> (None, m2, tr2))))"

definition disconnect ::
  "transport \<Rightarrow> monitor \<times> ws_event list \<Rightarrow> exn option \<times> monitor \<times> ws_event list" where
  "disconnect t s =
     (case s of (m, tr) \<Rightarrow>
        (case websocket m of
           None \<Rightarrow> (None, m, tr)
         | Some cl \<Rightarrow>
             (case client_disconnect t cl tr of
                (Some e, cl', tr') \<Rightarrow> (Some e, m\<lparr>websocket := Some cl'\<rparr>, tr')
              | (None, cl', tr') \<Rightarrow> (None, m\<lparr>websocket := None, is_connected := False\<rparr>, tr'))))"

text \<open>
  \<open>_listen\<close>. Every exception of the stream and of the message handler is caught
  below it, and no message changes a field of the monitor, so only the client's flag
  and the trace move.
\<close>

definition listen :: "transport \<Rightarrow> monitor \<times> ws_event list \<Rightarrow> monitor \<times> ws_event list" where
  "listen t s =
     (case s of (m, tr) \<Rightarrow>
        (case websocket m of
           None \<Rightarrow> (m, tr)
         | Some cl \<Rightarrow>
             (case client_listen t cl tr of (cl', tr') \<Rightarrow> (m\<lparr>websocket := Some cl'\<rparr>, tr'))))"

definition backoff_delay :: "nat \<Rightarrow> nat \<Rightarrow> nat" where
  "backoff_delay base n = min (base * 2 ^ n) 300"

definition handle_error ::
  "transport \<Rightarrow> monitor \<times> ws_event list \<Rightarrow> exn option \<times> monitor \<times> ws_event list" where
  "handle_error t s =
     (case disconnect t s of
        (Some e, m, tr) \<Rightarrow> (Some e, m, tr)
      | (None, m, tr) \<Rightarrow>
          if reconnect_attempts m < max_reconnect_attempts m
          then
            let m1 = m\<lparr>reconnect_attempts := reconnect_attempts m + 1\<rparr>;
                delay = backoff_delay (reconnect_delay m1) (reconnect_attempts m1)
            in (None, m1, tr @ [Sleep delay])
          else (None, m\<lparr>running := False\<rparr>, tr))"

text \<open>
  \<open>_run\<close>, the background task, with a bound on the number of iterations observed.
  \<open>LoopExited\<close>: the \<open>while\<close> condition was false. \<open>TaskFailed\<close>: an exception
  left \<open>_handle_error\<close> and ended the task. \<open>StillRunning\<close>: the bound was reached.
\<close>

datatype run_end = LoopExited | TaskFailed exn | StillRunning

fun run ::
  "nat \<Rightarrow> transport \<Rightarrow> string \<Rightarrow> monitor \<times> ws_event list \<Rightarrow> run_end \<times> monitor \<times> ws_event list" where
  "run 0 t url s = (if running (fst s) then StillRunning else LoopExited, s)"
| "run (Suc n) t url s =
     (if \<not> running (fst s) then (LoopExited, s)
      else
        (case connect t url s of
           (None, s1) \<Rightarrow> run n t url (listen t s1)
         | (Some e, s1) \<Rightarrow>
             (case handle_error t s1 of
                (Some e', s2) \<Rightarrow> (TaskFailed e', s2)
              | (None, s2) \<Rightarrow> run n t url s2)))"

definition start :: "monitor \<Rightarrow> monitor" where
  "start m = (if running m then m else m\<lparr>running := True\<rparr>)"

definition stop ::
  "transport \<Rightarrow> monitor \<times> ws_event list \<Rightarrow> exn option \<times> monitor \<times> ws_event list" where
  "stop t s = (case s of (m, tr) \<Rightarrow> disconnect t (m\<lparr>running := False\<rparr>, tr))"

definition is_running :: "monitor \<Rightarrow> bool" where
  "is_running m = running m"

definition get_subscribed_addresses :: "monitor \<Rightarrow> string list" where
  "get_subscribed_addresses m = subscribed_addresses m"

text \<open>
  What a caller and the background task can do to a monitor, one step at a time. An
  exception raised to the caller is dropped here; the state it leaves is kept.
\<close>

datatype monitor_op =
    Subscribe string
  | Unsubscribe string
  | Stop
  | Start
  | RunTask nat

fun apply_op ::
  "transport \<Rightarrow> string \<Rightarrow> monitor_op \<Rightarrow> monitor \<times> ws_event list \<Rightarrow> monitor \<times> ws_event list" where
  "apply_op t url (Subscribe a) s = snd (subscribe_address t a s)"
| "apply_op t url (Unsubscribe a) s = snd (unsubscribe_address t a s)"
| "apply_op t url Stop s = snd (stop t s)"
| "apply_op t url Start s = (start (fst s), snd s)"
| "apply_op t url (RunTask n) s = snd (run n t url s)"

fun apply_ops ::
  "transport \<Rightarrow> string \<Rightarrow> monitor_op list \<Rightarrow> monitor \<times> ws_event list \<Rightarrow> monitor \<times> ws_event list" where
  "apply_ops t url [] s = s"
| "apply_ops t url (x # xs) s = apply_ops t url xs (apply_op t url x s)"

fun is_subscription_op :: "monitor_op \<Rightarrow> bool" where
  "is_subscription_op (Subscribe a) = True"
| "is_subscription_op (Unsubscribe a) = True"
| "is_subscription_op x = False"

fun is_ws_connect :: "ws_event \<Rightarrow> bool" where
  "is_ws_connect (WsConnect u) = True"
| "is_ws_connect e = False"

text \<open>The events a step added to the trace.\<close>

definition events_since :: "ws_event list \<Rightarrow> ws_event list \<Rightarrow> ws_event list" where
  "events_since tr tr' = drop (length tr) tr'"

fun is_start :: "monitor_op \<Rightarrow> bool" where
  "is_start Start = True"
| "is_start x = False"

fun is_ws_send :: "ws_event \<Rightarrow> bool" where
  "is_ws_send (WsSend msg) = True"
| "is_ws_send e = False"

text \<open>
  The set of tracked addresses that a sequence of calls stands for, read off the
  specification's words: a subscribe adds the address, an unsubscribe takes it out.
\<close>

fun implied_set :: "monitor_op list \<Rightarrow> string set \<Rightarrow> string set" where
  "implied_set [] A = A"
| "implied_set (Subscribe a # xs) A = implied_set xs (insert a A)"
| "implied_set (Unsubscribe a # xs) A = implied_set xs (A - {a})"
| "implied_set (x # xs) A = implied_set xs A"

section \<open>Observing a run\<close>

text \<open>
  Whether the node raises when it is asked \<open>c\<close> after the calls \<open>tr\<close>, and the first
  exception among the calls \<open>cs\<close> made after \<open>tr\<close>.
\<close>

fun raised :: "'n node \<Rightarrow> 'n call list \<Rightarrow> 'n call \<Rightarrow> exn option" where
  "raised nd tr (GetAddressUtxos a) =
     (case get_address_utxos nd tr a of Inl e \<Rightarrow> Some e | Inr r \<Rightarrow> None)"
| "raised nd tr (CreateRawTransaction i out) =
     (case create_raw_transaction nd tr i out of Inl e \<Rightarrow> Some e | Inr r \<Rightarrow> None)"
| "raised nd tr (SignRawTransaction h ks) =
     (case sign_raw_transaction nd tr h ks of Inl e \<Rightarrow> Some e | Inr r \<Rightarrow> None)"
| "raised nd tr (SendTransaction h) =
     (case send_transaction nd tr h of Inl e \<Rightarrow> Some e | Inr r \<Rightarrow> None)"

fun first_raise :: "'n node \<Rightarrow> 'n call list \<Rightarrow> 'n call list \<Rightarrow> exn option" where
  "first_raise nd tr [] = None"
| "first_raise nd tr (c # cs) =
     (case raised nd tr c of Some e \<Rightarrow> Some e | None \<Rightarrow> first_raise nd (tr @ [c]) cs)"

subsection \<open>Example nodes and transports\<close>

definition example_clock :: "real call list \<Rightarrow> real" where
  "example_clock tr = real (length tr)"

definition example_utxo :: "real utxo" where
  "example_utxo =
     \<lparr>utxo_txid = ''aa'', utxo_vout = 0, utxo_amount = 1 / 2, utxo_confirmations = Some 3\<rparr>"

text \<open>A confirmed output of 0.0005 coins: above the default fee, below the minimum.\<close>

definition small_utxo :: "real utxo" where
  "small_utxo =
     \<lparr>utxo_txid = ''bb'', utxo_vout = 1, utxo_amount = 5 / 10000, utxo_confirmations = Some 1\<rparr>"

definition ok_node :: "real node" where
  "ok_node =
     \<lparr>get_address_utxos = (\<lambda>tr a. Inr [example_utxo]),
      create_raw_transaction = (\<lambda>tr i out. Inr ''raw''),
      sign_raw_transaction =
        (\<lambda>tr h ks. Inr \<lparr>signed_hex = Some ''signed'', signed_complete = Some True\<rparr>),
      send_transaction = (\<lambda>tr h. Inr ''tx1'')\<rparr>"

definition unsigned_node :: "real node" where
  "unsigned_node =
     ok_node\<lparr>sign_raw_transaction :=
        (\<lambda>tr h ks. Inr \<lparr>signed_hex = Some ''raw'', signed_complete = Some False\<rparr>)\<rparr>"

definition small_node :: "real node" where
  "small_node = ok_node\<lparr>get_address_utxos := (\<lambda>tr a. Inr [small_utxo])\<rparr>"

definition empty_node :: "real node" where
  "empty_node = ok_node\<lparr>get_address_utxos := (\<lambda>tr a. Inr [])\<rparr>"

definition blank_txid_node :: "real node" where
  "blank_txid_node = ok_node\<lparr>send_transaction := (\<lambda>tr h. Inr [])\<rparr>"

definition rpc_error_node :: "real node" where
  "rpc_error_node =
     ok_node\<lparr>get_address_utxos :=
        (\<lambda>tr a. if a = ''A'' then Inl (Exception ''RPC error'') else Inr [example_utxo])\<rparr>"

definition example_collector :: "real funds_collector" where
  "example_collector = init_collector ''M'' default_fee"

definition example_url :: string where
  "example_url = ''wss://ltcbook.nownodes.io/wss/key''"

definition refusing_transport :: transport where
  "refusing_transport =
     \<lparr>t_connect = (\<lambda>tr u. Some (Exception ''connection refused'')),
      t_send = (\<lambda>tr msg. None),
      t_close = (\<lambda>tr. None),
      t_listen_raises = (\<lambda>tr. False)\<rparr>"

definition ok_transport :: transport where
  "ok_transport =
     \<lparr>t_connect = (\<lambda>tr u. None),
      t_send = (\<lambda>tr msg. None),
      t_close = (\<lambda>tr. None),
      t_listen_raises = (\<lambda>tr. True)\<rparr>"

section \<open>Properties of the fund collector\<close>

lemmas ex_defs = example_collector_def init_collector_def default_fee_def example_utxo_def
  small_utxo_def ok_node_def unsigned_node_def small_node_def empty_node_def
  blank_txid_node_def rpc_error_node_def example_clock_def confirmations_of_def is_complete_def

lemma collect_from_address_unfold:
  "collect_from_address nd clock source_address private_key (c, tr) =
     (if is_processing c then (None, c, tr)
      else
        (case collect_body nd clock (c\<lparr>is_processing := True\<rparr>) source_address private_key tr of
           (Inr r, tr') \<Rightarrow> (r, c\<lparr>is_processing := False\<rparr>, tr')
         | (Inl e, tr') \<Rightarrow>
             (Some (Failed (message e) source_address), c\<lparr>is_processing := False\<rparr>, tr')))"
  by (simp add: collect_from_address_def acquire_def release_def split: prod.splits sum.splits)

lemmas cfa_defs = collect_from_address_unfold collect_body_def Let_def sign_step_def send_step_def
  py_sum_def

subsection \<open>Nothing to collect\<close>



subsection \<open>Incomplete signature\<close>

text \<open>
  Claim C1 as stated fails: with a key supplied and a signature reported incomplete, the
  job returns \<open>None\<close> (line 89 of collector.py), not a failure dictionary.
\<close>

theorem sign_incomplete_counterexample:
  "sign_raw_transaction unsigned_node
       [GetAddressUtxos ''A'',
        CreateRawTransaction [TxInput ''aa'' 0] (''M'', 1 / 2 - 1 / 10000)] ''raw'' [''key'']
     = Inr \<lparr>signed_hex = Some ''raw'', signed_complete = Some False\<rparr> \<and>
   collect_from_address unsigned_node example_clock ''A'' (Some ''key'') (example_collector, [])
     = (None, example_collector,
        [GetAddressUtxos ''A'',
         CreateRawTransaction [TxInput ''aa'' 0] (''M'', 1 / 2 - 1 / 10000),
         SignRawTransaction ''raw'' [''key'']])"
  by (simp add: cfa_defs ex_defs)

text \<open>
  Claim C1, amended. With a non-empty key and a node whose signing never reports
  completion, no job broadcasts a transaction, and a job that reached the signing call
  returns \<open>None\<close>.
\<close>

theorem sign_incomplete_returns_none:
  assumes "k \<noteq> []"
    and "\<forall>tr h ks. \<exists>sg. sign_raw_transaction nd tr h ks = Inr sg \<and> \<not> is_complete sg"
  shows "\<not> list_ex is_send
            (calls_since tr (snd (snd (collect_from_address nd clock a (Some k) (c, tr))))) \<and>
         (list_ex is_sign
            (calls_since tr (snd (snd (collect_from_address nd clock a (Some k) (c, tr))))) \<longrightarrow>
          fst (collect_from_address nd clock a (Some k) (c, tr)) = None)"
proof -
  have s: "sign_step nd raw (Some k) tr2 = (Inr None, tr2 @ [SignRawTransaction raw [k]])"
    for raw tr2
    using assms(1) assms(2)[rule_format, of tr2 raw "[k]"] by (auto simp: sign_step_def)
  show ?thesis
    by (auto simp: collect_from_address_unfold collect_body_def Let_def s calls_since_def
          split: prod.splits sum.splits if_splits)
qed

text \<open>Claim C1, amended, at a concrete input.\<close>

theorem sign_incomplete_returns_none_witness:
  "\<not> list_ex is_send
       (calls_since []
          (snd (snd (collect_from_address unsigned_node example_clock ''A'' (Some ''key'')
                       (example_collector, []))))) \<and>
   list_ex is_sign
       (calls_since []
          (snd (snd (collect_from_address unsigned_node example_clock ''A'' (Some ''key'')
                       (example_collector, []))))) \<and>
   fst (collect_from_address unsigned_node example_clock ''A'' (Some ''key'')
          (example_collector, [])) = None"
proof -
  have k: "''key'' \<noteq> []" by simp
  have n: "\<forall>tr h ks. \<exists>sg. sign_raw_transaction unsigned_node tr h ks = Inr sg \<and> \<not> is_complete sg"
    by (simp add: unsigned_node_def ok_node_def is_complete_def)
  have sg: "list_ex is_sign
       (calls_since []
          (snd (snd (collect_from_address unsigned_node example_clock ''A'' (Some ''key'')
                       (example_collector, [])))))"
    by (simp add: cfa_defs ex_defs calls_since_def)
  show ?thesis
    using sign_incomplete_returns_none [OF k n, of "[]" example_clock "''A''" example_collector] sg
    by blast
qed

subsection \<open>A single confirmed output\<close>

text \<open>
  Claim C2 as stated fails: one confirmed output of 0.0005 coins exceeds the default fee
  of 0.0001 but lies below the minimum collection amount of 0.001, and the job returns
  \<open>None\<close>.
\<close>

theorem single_utxo_counterexample:
  "get_address_utxos small_node [] ''A'' = Inr [small_utxo] \<and>
   filter (\<lambda>u. confirmations_of u \<ge> 1) [small_utxo] = [small_utxo] \<and>
   utxo_amount small_utxo > collection_fee example_collector \<and>
   fst (collect_from_address small_node example_clock ''A'' None (example_collector, [])) = None"
  by (simp add: cfa_defs ex_defs)

text \<open>
  Claim C2, amended. When no job is in flight, the fetch returns a list with exactly one
  confirmed output of amount \<open>X\<close>, \<open>X\<close> exceeds the fee and reaches the minimum
  amount, and the node's build, sign and broadcast calls succeed (a signature being
  complete), the job returns a success with amount \<open>X - fee\<close> and one input. The
  statement is read at the real numbers, where the sum of the single amount, \<open>0 + X\<close>,
  is \<open>X\<close>, as it is for a Python float.
\<close>

theorem single_utxo_collected:
  assumes "\<not> is_processing (c :: real funds_collector)"
    and "get_address_utxos nd tr a = Inr utxos"
    and "filter (\<lambda>u. confirmations_of u \<ge> 1) utxos = [u]"
    and "utxo_amount u > collection_fee c"
    and "utxo_amount u \<ge> min_collection_amount c"
    and "\<forall>tr i out. \<exists>h. create_raw_transaction nd tr i out = Inr h"
    and "\<forall>tr h ks. \<exists>sg x. sign_raw_transaction nd tr h ks = Inr sg \<and> is_complete sg \<and>
           signed_hex sg = Some x"
    and "\<forall>tr h. \<exists>t. send_transaction nd tr h = Inr t"
  shows "\<exists>r. fst (collect_from_address nd clock a pk (c, tr)) = Some r \<and> result_success r \<and>
           r_amount r = utxo_amount u - collection_fee c \<and> r_utxo_count r = 1"
proof -
  let ?tr1 = "tr @ [GetAddressUtxos a]"
  let ?inputs = "[TxInput (utxo_txid u) (utxo_vout u)]"
  let ?outputs = "(master_address c, utxo_amount u - collection_fee c)"
  obtain raw where cr: "create_raw_transaction nd ?tr1 ?inputs ?outputs = Inr raw"
    using assms(6) by blast
  have "\<exists>raw' tr3. sign_step nd raw pk (?tr1 @ [CreateRawTransaction ?inputs ?outputs])
          = (Inr (Some raw'), tr3)"
  proof (cases "pk = None \<or> pk = Some []")
    case True
    then show ?thesis by (auto simp: sign_step_def)
  next
    case False
    then obtain k where k: "pk = Some k" "k \<noteq> []" by auto
    obtain sg x where "sign_raw_transaction nd (?tr1 @ [CreateRawTransaction ?inputs ?outputs]) raw [k] = Inr sg"
      "is_complete sg" "signed_hex sg = Some x"
      using assms(7) by blast
    with k show ?thesis by (simp add: sign_step_def)
  qed
  then obtain raw' tr3 where
    sg: "sign_step nd raw pk (?tr1 @ [CreateRawTransaction ?inputs ?outputs]) = (Inr (Some raw'), tr3)"
    by blast
  obtain t where sd: "send_transaction nd tr3 raw' = Inr t"
    using assms(8) by blast
  have ne: "utxos \<noteq> []" using assms(3) by auto
  show ?thesis
    using assms(1-5) ne cr sg sd
    by (simp add: collect_from_address_unfold collect_body_def Let_def send_step_def py_sum_def)
qed

text \<open>Claim C2, amended, at a concrete input: a signed collection of half a coin.\<close>

theorem single_utxo_collected_witness:
  "\<exists>r. fst (collect_from_address ok_node example_clock ''A'' (Some ''key'') (example_collector, []))
          = Some r \<and> result_success r \<and>
        r_amount r = utxo_amount example_utxo - collection_fee example_collector \<and>
        r_utxo_count r = 1"
proof -
  have 1: "\<not> is_processing example_collector" by (simp add: ex_defs)
  have 2: "get_address_utxos ok_node [] ''A'' = Inr [example_utxo]" by (simp add: ex_defs)
  have 3: "filter (\<lambda>u. confirmations_of u \<ge> 1) [example_utxo] = [example_utxo]"
    by (simp add: ex_defs)
  have 4: "utxo_amount example_utxo > collection_fee example_collector" by (simp add: ex_defs)
  have 5: "utxo_amount example_utxo \<ge> min_collection_amount example_collector"
    by (simp add: ex_defs)
  have 6: "\<forall>tr i out. \<exists>h. create_raw_transaction ok_node tr i out = Inr h"
    by (simp add: ex_defs)
  have 7: "\<forall>tr h ks. \<exists>sg x. sign_raw_transaction ok_node tr h ks = Inr sg \<and> is_complete sg \<and>
           signed_hex sg = Some x"
    by (simp add: ex_defs)
  have 8: "\<forall>tr h. \<exists>t. send_transaction ok_node tr h = Inr t" by (simp add: ex_defs)
  show ?thesis
    using single_utxo_collected [OF 1 2 3 4 5 6 7 8] .
qed

subsection \<open>Exceptions and the shape of results\<close>

lemma calls_since_append [simp]: "calls_since tr (tr @ cs) = cs"
  by (simp add: calls_since_def)

lemma calls_since_self [simp]: "calls_since tr tr = []"
  by (simp add: calls_since_def)

lemma first_raise_append:
  "first_raise nd tr (cs @ ds) =
     (case first_raise nd tr cs of Some e \<Rightarrow> Some e | None \<Rightarrow> first_raise nd (tr @ cs) ds)"
  by (induction cs arbitrary: tr) (auto split: option.splits)

lemma sign_step_raise:
  "sign_step nd raw pk tr = (res, tr') \<Longrightarrow>
     \<exists>cs. tr' = tr @ cs \<and> \<not> list_ex is_send cs \<and>
       (\<forall>e. first_raise nd tr cs = Some e \<longrightarrow> res = Inl e) \<and>
       (\<forall>x. res = Inr x \<longrightarrow> first_raise nd tr cs = None)"
  by (auto simp: sign_step_def split: option.splits if_splits sum.splits)

lemma send_step_raise:
  "send_step nd clock c a amt tot n raw tr = (res, tr') \<Longrightarrow>
     tr' = tr @ [SendTransaction raw] \<and>
     (\<forall>e. first_raise nd tr [SendTransaction raw] = Some e \<longrightarrow> res = Inl e) \<and>
     (\<forall>r. res = Inr r \<longrightarrow> (\<exists>t. r = Some (Collected t a (master_address c) amt (collection_fee c) tot n
                (clock tr')) \<and> send_transaction nd tr raw = Inr t))"
  by (auto simp: send_step_def split: sum.splits)

lemma collect_body_raise:
  assumes "collect_body nd clock c a pk tr = (res, tr')"
  shows "\<exists>cs. tr' = tr @ cs \<and> (\<forall>e. first_raise nd tr cs = Some e \<longrightarrow> res = Inl e) \<and>
     (\<forall>r. res = Inr (Some r) \<longrightarrow> result_success r \<and>
         (\<exists>h. cs \<noteq> [] \<and> last cs = SendTransaction h \<and>
              send_transaction nd (tr @ butlast cs) h = Inr (r_txid r)))"
proof (cases "get_address_utxos nd tr a")
  case (Inl e)
  with assms show ?thesis by (auto simp: collect_body_def)
next
  case (Inr utxos)
  let ?conf = "filter (\<lambda>u. confirmations_of u \<ge> 1) utxos"
  let ?total = "py_sum (map utxo_amount ?conf)"
  let ?amt = "?total - collection_fee c"
  let ?inputs = "map (\<lambda>u. TxInput (utxo_txid u) (utxo_vout u)) ?conf"
  let ?tr1 = "tr @ [GetAddressUtxos a]"
  let ?cr = "CreateRawTransaction ?inputs (master_address c, ?amt)"
  show ?thesis
  proof (cases "utxos = [] \<or> ?conf = [] \<or> ?total < min_collection_amount c \<or> ?amt \<le> 0")
    case True
    with assms Inr show ?thesis by (auto simp: collect_body_def Let_def split: if_splits)
  next
    case False
    note go = False
    show ?thesis
    proof (cases "create_raw_transaction nd ?tr1 ?inputs (master_address c, ?amt)")
      case (Inl e)
      with assms Inr go show ?thesis by (auto simp: collect_body_def Let_def)
    next
      case raw: (Inr raw)
      obtain sres tr3 where sg: "sign_step nd raw pk (?tr1 @ [?cr]) = (sres, tr3)"
        by (cases "sign_step nd raw pk (?tr1 @ [?cr])") auto
      from sign_step_raise [OF sg] obtain cs where cs: "tr3 = (?tr1 @ [?cr]) @ cs"
        "\<not> list_ex is_send cs"
        "\<forall>e. first_raise nd (?tr1 @ [?cr]) cs = Some e \<longrightarrow> sres = Inl e"
        "\<forall>x. sres = Inr x \<longrightarrow> first_raise nd (?tr1 @ [?cr]) cs = None"
        by blast
      have pre: "first_raise nd tr ([GetAddressUtxos a, ?cr] @ ds) = first_raise nd (tr @ [GetAddressUtxos a, ?cr]) ds" for ds
        using Inr raw by (simp add: first_raise_append)
      show ?thesis
      proof (cases sres)
        case (Inl e)
        with assms Inr go raw sg have "res = Inl e" "tr' = tr3"
          by (auto simp: collect_body_def Let_def)
        with cs Inl pre[of cs] show ?thesis
          by (intro exI[of _ "[GetAddressUtxos a, ?cr] @ cs"]) auto
      next
        case (Inr x)
        show ?thesis
        proof (cases x)
          case None
          with assms \<open>get_address_utxos nd tr a = Inr utxos\<close> go raw sg Inr
          have "res = Inr None" "tr' = tr3"
            by (auto simp: collect_body_def Let_def)
          with cs Inr pre[of cs] show ?thesis
            by (intro exI[of _ "[GetAddressUtxos a, ?cr] @ cs"]) auto
        next
          case (Some raw')
          with assms \<open>get_address_utxos nd tr a = Inr utxos\<close> go raw sg Inr
          have ss: "send_step nd clock c a ?amt ?total (length ?conf) raw' tr3 = (res, tr')"
            by (auto simp: collect_body_def Let_def)
          from send_step_raise [OF ss] cs Inr pre[of "cs @ [SendTransaction raw']"]
          show ?thesis
            by (intro exI[of _ "[GetAddressUtxos a, ?cr] @ cs @ [SendTransaction raw']"])
               (auto simp: first_raise_append butlast_append split: option.splits)
        qed
      qed
    qed
  qed
qed

text \<open>
  Claim C4 as stated fails in its second half: the success dictionary carries whatever
  \<open>send_transaction\<close> returned, and nothing checks that it is non-empty.
\<close>

theorem success_txid_counterexample:
  "fst (collect_from_address blank_txid_node example_clock ''A'' None (example_collector, []))
     = Some (Collected [] ''A'' ''M'' (1 / 2 - 1 / 10000) (1 / 10000) (1 / 2) 1 3) \<and>
   result_success (Collected [] ''A'' ''M'' (1 / 2 - 1 / 10000) (1 / 10000) (1 / 2) 1 3) \<and>
   result_txid (Collected [] ''A'' ''M'' (1 / 2 - 1 / 10000) (1 / 10000) (1 / 2) 1 3) = Some []"
  by (simp add: cfa_defs ex_defs)

text \<open>
  Claim C4, amended. An exception raised by any node call of a job, and any exception
  leaving the \<open>try\<close> block, ends the job with the failure dictionary holding its text
  and the source address; the method itself returns a value in every case. A failure
  result has no txid and names the source address; a success result carries exactly the
  txid that the broadcast, the last call of the job, returned.
\<close>

theorem exceptions_become_failures:
  assumes "collect_from_address nd clock a pk (c, tr) = (r, c', tr')"
  shows "(\<forall>e. first_raise nd tr (calls_since tr tr') = Some e \<longrightarrow>
            r = Some (Failed (message e) a)) \<and>
         (\<forall>e. \<not> is_processing c \<and>
              fst (collect_body nd clock (c\<lparr>is_processing := True\<rparr>) a pk tr) = Inl e \<longrightarrow>
            r = Some (Failed (message e) a)) \<and>
         (\<forall>res. r = Some res \<and> \<not> result_success res \<longrightarrow>
            result_txid res = None \<and> result_from_address res = a) \<and>
         (\<forall>res. r = Some res \<and> result_success res \<longrightarrow>
            (\<exists>h. tr' \<noteq> [] \<and> last tr' = SendTransaction h \<and>
                 send_transaction nd (butlast tr') h = Inr (r_txid res) \<and>
                 result_txid res = Some (r_txid res)))"
proof (cases "is_processing c")
  case True
  with assms show ?thesis by (simp add: collect_from_address_unfold)
next
  case False
  obtain res trb where b: "collect_body nd clock (c\<lparr>is_processing := True\<rparr>) a pk tr = (res, trb)"
    by (cases "collect_body nd clock (c\<lparr>is_processing := True\<rparr>) a pk tr") auto
  from collect_body_raise [OF b] obtain cs where cs: "trb = tr @ cs"
    "\<forall>e. first_raise nd tr cs = Some e \<longrightarrow> res = Inl e"
    "\<forall>r. res = Inr (Some r) \<longrightarrow> result_success r \<and>
         (\<exists>h. cs \<noteq> [] \<and> last cs = SendTransaction h \<and>
              send_transaction nd (tr @ butlast cs) h = Inr (r_txid r))"
    by blast
  show ?thesis
  proof (cases res)
    case (Inl e)
    with assms False b have "r = Some (Failed (message e) a)" "tr' = trb"
      by (auto simp: collect_from_address_unfold)
    with cs Inl b show ?thesis by auto
  next
    case (Inr x)
    with assms False b have x: "r = x" "tr' = trb"
      by (auto simp: collect_from_address_unfold)
    have "result_txid y = Some (r_txid y)" if "result_success y" for y
      using that by (cases y) auto
    with cs Inr b x show ?thesis by (auto simp: butlast_append)
  qed
qed

text \<open>Claim C4, amended, at a concrete input: the fetch raises an RPC error.\<close>

theorem exceptions_become_failures_witness:
  "first_raise rpc_error_node [] [GetAddressUtxos ''A''] = Some (Exception ''RPC error'') \<and>
   fst (collect_from_address rpc_error_node example_clock ''A'' None (example_collector, []))
     = Some (Failed ''RPC error'' ''A'')"
proof -
  let ?X = "collect_from_address rpc_error_node example_clock ''A'' None (example_collector, [])"
  have t: "calls_since [] (snd (snd ?X)) = [GetAddressUtxos ''A'']"
    by (simp add: cfa_defs ex_defs calls_since_def)
  have f: "first_raise rpc_error_node [] [GetAddressUtxos ''A''] = Some (Exception ''RPC error'')"
    by (simp add: ex_defs)
  have p: "?X = (fst ?X, fst (snd ?X), snd (snd ?X))"
    by simp
  have "fst ?X = Some (Failed (message (Exception ''RPC error'')) ''A'')"
    using exceptions_become_failures [OF p, THEN conjunct1, rule_format, of "Exception ''RPC error''"]
      f t
    by simp
  with f show ?thesis by simp
qed

subsection \<open>Batches\<close>

lemma map_filter_append_calls:
  "List.map_filter f (xs @ ys) = List.map_filter f xs @ List.map_filter f ys"
  by (simp add: List.map_filter_def)

lemma sign_step_trace:
  "sign_step nd raw pk tr = (res, tr') \<Longrightarrow>
     \<exists>cs. tr' = tr @ cs \<and> List.map_filter utxo_request cs = []"
  by (auto simp: sign_step_def split: option.splits if_splits sum.splits)

lemma collect_body_trace:
  assumes "collect_body nd clock c a pk tr = (res, tr')"
  shows "\<exists>cs. tr' = tr @ GetAddressUtxos a # cs \<and> List.map_filter utxo_request cs = []"
proof -
  have "\<exists>cs. tr3 = tr @ GetAddressUtxos a # cs \<and> List.map_filter utxo_request cs = []"
    if "sign_step nd raw pk (tr @ [GetAddressUtxos a, CreateRawTransaction i out]) = (sres, tr3)"
    for raw i out sres tr3
    using sign_step_trace [OF that] by (auto simp: map_filter_append_calls)
  then show ?thesis
    using assms
    by (fastforce simp: collect_body_def Let_def send_step_def map_filter_append_calls
          split: sum.splits if_splits prod.splits option.splits)
qed


subsection \<open>The in-flight guard\<close>

text \<open>
  Claim C5. A call on a busy collector returns \<open>None\<close> and leaves the collector and the
  trace of node calls as they were. A call on a free collector marks it busy before its
  first \<open>await\<close>: the job is suspended at least once, at the fetch, and at every point
  where it is suspended the collector is busy, so a further call made there, for any
  address, key and node, returns \<open>None\<close> and makes no node call. The job ends with the
  mark cleared, whatever its outcome, and the next call acquires the guard.
\<close>

theorem in_flight_guard:
  "(is_processing c \<longrightarrow> collect_from_address nd clock a pk (c, tr) = (None, c, tr)) \<and>
   (\<not> is_processing c \<longrightarrow>
      (c\<lparr>is_processing := True\<rparr>, tr @ [GetAddressUtxos a])
        \<in> set (in_flight nd clock a pk (c, tr)) \<and>
      (\<forall>s \<in> set (in_flight nd clock a pk (c, tr)).
         is_processing (fst s) \<and>
         collect_from_address nd2 clock2 a2 pk2 s = (None, s)) \<and>
      \<not> is_processing (fst (snd (collect_from_address nd clock a pk (c, tr)))) \<and>
      acquire (fst (snd (collect_from_address nd clock a pk (c, tr)))) \<noteq> None)"
proof (cases "is_processing c")
  case True
  then show ?thesis by (simp add: collect_from_address_unfold)
next
  case False
  let ?c1 = "c\<lparr>is_processing := True\<rparr>"
  obtain res trb where b: "collect_body nd clock ?c1 a pk tr = (res, trb)"
    by (cases "collect_body nd clock ?c1 a pk tr") auto
  from collect_body_trace [OF b] obtain cs where cs: "trb = tr @ GetAddressUtxos a # cs"
    by blast
  have fl: "in_flight nd clock a pk (c, tr) =
      map (\<lambda>n. (?c1, take n trb)) [Suc (length tr)..<Suc (length trb)]"
    using False b by (simp add: in_flight_def acquire_def)
  have first: "(?c1, tr @ [GetAddressUtxos a]) \<in> set (in_flight nd clock a pk (c, tr))"
  proof -
    have "length tr < length trb"
      using cs by simp
    then have "Suc (length tr) \<in> set [Suc (length tr)..<Suc (length trb)]"
      by auto
    moreover have "take (Suc (length tr)) trb = tr @ [GetAddressUtxos a]"
      using cs by simp
    ultimately show ?thesis
      unfolding fl by (metis (mono_tags, lifting) image_eqI set_map)
  qed
  have busy: "is_processing (fst s) \<and> collect_from_address nd2 clock2 a2 pk2 s = (None, s)"
    if "s \<in> set (in_flight nd clock a pk (c, tr))" for s
    using that unfolding fl by (auto simp: collect_from_address_unfold)
  have freed: "\<not> is_processing (fst (snd (collect_from_address nd clock a pk (c, tr))))"
    using False b by (simp add: collect_from_address_unfold split: sum.splits)
  then have "acquire (fst (snd (collect_from_address nd clock a pk (c, tr)))) \<noteq> None"
    by (simp add: acquire_def)
  with False first busy freed show ?thesis by blast
qed

text \<open>
  Claim C5, at a concrete input: a second call made while the first job waits for its
  fetch is turned away, and the first job ends with the guard free.
\<close>

theorem in_flight_guard_witness:
  "(example_collector\<lparr>is_processing := True\<rparr>, [GetAddressUtxos ''A''])
     \<in> set (in_flight ok_node example_clock ''A'' None (example_collector, [])) \<and>
   collect_from_address ok_node example_clock ''B'' None
       (example_collector\<lparr>is_processing := True\<rparr>, [GetAddressUtxos ''A''])
     = (None, example_collector\<lparr>is_processing := True\<rparr>, [GetAddressUtxos ''A'']) \<and>
   \<not> is_processing
       (fst (snd (collect_from_address ok_node example_clock ''A'' None (example_collector, []))))"
proof -
  have f: "\<not> is_processing example_collector"
    by (simp add: example_collector_def init_collector_def)
  note g = in_flight_guard [of example_collector ok_node example_clock "''A''" None "[]"
      ok_node example_clock "''B''" None, THEN conjunct2, rule_format, OF f]
  from g have m: "(example_collector\<lparr>is_processing := True\<rparr>, [] @ [GetAddressUtxos ''A''])
     \<in> set (in_flight ok_node example_clock ''A'' None (example_collector, []))"
    by blast
  from g m have "collect_from_address ok_node example_clock ''B'' None
       (example_collector\<lparr>is_processing := True\<rparr>, [] @ [GetAddressUtxos ''A''])
     = (None, example_collector\<lparr>is_processing := True\<rparr>, [] @ [GetAddressUtxos ''A''])"
    by blast
  with g m show ?thesis by simp
qed

lemma record_result_counts:
  "b_total (record_result r res) = b_total res \<and>
   b_successful (record_result r res) + b_failed (record_result r res) =
     b_successful res + b_failed res + 1 \<and>
   length (b_collections (record_result r res)) \<le> length (b_collections res) + 1"
  by (simp add: record_result_def Let_def split: option.splits)

lemma collect_item_eq:
  "collect_item nd clock pks a res s =
     (record_result (fst (collect_from_address nd clock a (pks a) s)) res,
      snd (collect_from_address nd clock a (pks a) s))"
  by (simp add: collect_item_def collect_item_body_def Let_def split: prod.splits)

lemma collect_loop_counts:
  "collect_loop nd clock pks addresses res s = (res', s') \<Longrightarrow>
     b_total res' = b_total res \<and>
     b_successful res' + b_failed res' = b_successful res + b_failed res + length addresses \<and>
     length (b_collections res') \<le> length (b_collections res) + length addresses"
proof (induction addresses arbitrary: res s)
  case Nil
  then show ?case by simp
next
  case (Cons a addresses)
  let ?r = "record_result (fst (collect_from_address nd clock a (pks a) s)) res"
  from Cons.prems
  have "collect_loop nd clock pks addresses ?r (snd (collect_from_address nd clock a (pks a) s))
          = (res', s')"
    by (simp add: collect_item_eq)
  from Cons.IH [OF this] record_result_counts [of "fst (collect_from_address nd clock a (pks a) s)" res]
  show ?case by simp
qed




text \<open>
  Claim C10. An address whose job returns \<open>None\<close> adds one to \<open>failed\<close> and nothing
  to \<open>collections\<close>. Hence \<open>collections\<close> is never longer than \<open>total\<close>, and it is
  empty with \<open>failed = total\<close> when every job returns \<open>None\<close>: when the guard is
  taken from the start, or when the node reports no outputs for any address.
\<close>

theorem none_result_counts_failed:
  assumes "collect_multiple nd clock addresses private_keys (c, tr) = (res, c', tr')"
  shows "(\<forall>pks a results s.
            fst (collect_from_address nd clock a (pks a) s) = None \<longrightarrow>
            fst (collect_item nd clock pks a results s)
              = results\<lparr>b_failed := b_failed results + 1\<rparr>) \<and>
         length (b_collections res) \<le> b_total res \<and>
         (is_processing c \<or> (\<forall>tr a. get_address_utxos nd tr a = Inr []) \<longrightarrow>
            b_failed res = length addresses \<and> b_successful res = 0 \<and> b_collections res = [])"
proof -
  let ?pks = "case private_keys of None \<Rightarrow> Map.empty | Some m \<Rightarrow> m"
  let ?init = "\<lparr>b_total = length addresses, b_successful = 0, b_failed = 0,
                 b_collections = [], b_total_collected = 0, b_total_fees = 0\<rparr>"
  have loop: "collect_loop nd clock ?pks addresses ?init (c, tr) = (res, c', tr')"
    using assms by (simp add: collect_multiple_def Let_def)
  have item: "fst (collect_item nd clock pks a results s)
              = results\<lparr>b_failed := b_failed results + 1\<rparr>"
    if "fst (collect_from_address nd clock a (pks a) s) = None" for pks a results s
    using that by (simp add: collect_item_eq record_result_def)
  have len: "length (b_collections res) \<le> b_total res"
    using collect_loop_counts [OF loop] by simp
  have none: "fst (collect_from_address nd clock a pk (c0, tr0)) = None \<and>
      fst (snd (collect_from_address nd clock a pk (c0, tr0))) = c0\<lparr>is_processing := is_processing c \<and> is_processing c0\<rparr>"
    if "is_processing c0 = is_processing c" "is_processing c \<or> (\<forall>tr a. get_address_utxos nd tr a = Inr [])"
    for a pk c0 tr0
    using that by (auto simp: collect_from_address_unfold collect_body_def)
  have all: "b_failed r' = b_failed r0 + length adds \<and> b_successful r' = b_successful r0 \<and>
        b_collections r' = b_collections r0"
    if "is_processing c \<or> (\<forall>tr a. get_address_utxos nd tr a = Inr [])"
      "is_processing c0 = is_processing c"
      "collect_loop nd clock ?pks adds r0 (c0, tr0) = (r', c1, tr1)"
    for adds r0 c0 tr0 r' c1 tr1
    using that(2,3)
  proof (induction adds arbitrary: r0 c0 tr0)
    case Nil
    then show ?case by simp
  next
    case (Cons a adds)
    obtain r c2 tr2 where one: "collect_from_address nd clock a (?pks a) (c0, tr0) = (r, c2, tr2)"
      by (cases "collect_from_address nd clock a (?pks a) (c0, tr0)") auto
    from none [OF Cons.prems(1) that(1), of a "?pks a" tr0] one
    have r: "r = None" "is_processing c2 = is_processing c"
      using Cons.prems(1) by auto
    from Cons.prems(2) one r
    have "collect_loop nd clock ?pks adds (r0\<lparr>b_failed := b_failed r0 + 1\<rparr>) (c2, tr2) = (r', c1, tr1)"
      by (simp add: collect_item_eq record_result_def)
    from Cons.IH [OF r(2) this] show ?case by simp
  qed
  from all [OF _ _ loop] have "b_failed res = length addresses \<and> b_successful res = 0 \<and> b_collections res = []"
    if "is_processing c \<or> (\<forall>tr a. get_address_utxos nd tr a = Inr [])"
    using that by simp
  with item len show ?thesis by blast
qed

text \<open>Claim C10, at a concrete input: two addresses without outputs.\<close>

theorem none_result_counts_failed_witness:
  "fst (collect_from_address empty_node example_clock ''A'' None (example_collector, [])) = None \<and>
   fst (collect_multiple empty_node example_clock [''A'', ''B''] None (example_collector, []))
     = \<lparr>b_total = 2, b_successful = 0, b_failed = 2, b_collections = [],
        b_total_collected = 0, b_total_fees = 0\<rparr> \<and>
   length (b_collections
       (fst (collect_multiple empty_node example_clock [''A'', ''B''] None (example_collector, []))))
     < b_total
       (fst (collect_multiple empty_node example_clock [''A'', ''B''] None (example_collector, [])))"
proof -
  let ?X = "collect_multiple empty_node example_clock [''A'', ''B''] None (example_collector, [])"
  have p: "?X = (fst ?X, fst (snd ?X), snd (snd ?X))"
    by simp
  have e: "\<forall>tr a. get_address_utxos empty_node tr a = Inr []"
    by (simp add: ex_defs)
  have n: "fst (collect_from_address empty_node example_clock ''A'' None (example_collector, [])) = None"
    by (simp add: cfa_defs ex_defs)
  have t: "b_total (fst ?X) = 2 \<and> b_total_collected (fst ?X) = 0 \<and> b_total_fees (fst ?X) = 0"
    by (simp add: collect_multiple_def collect_item_eq record_result_def cfa_defs ex_defs)
  have "b_failed (fst ?X) = length [''A'', ''B''] \<and> b_successful (fst ?X) = 0 \<and>
      b_collections (fst ?X) = []"
    using none_result_counts_failed [OF p, THEN conjunct2, THEN conjunct2] e by blast
  with n t show ?thesis by (cases "fst ?X") simp
qed

section \<open>Properties of the transaction monitor\<close>

subsection \<open>What each operation changes\<close>

lemma events_since_append [simp]: "events_since tr (tr @ es) = es"
  by (simp add: events_since_def)

lemma events_since_self [simp]: "events_since tr tr = []"
  by (simp add: events_since_def)

lemma send_subscription_effect:
  "send_subscription t a (m, tr) = (r, m', tr') \<Longrightarrow>
     m' = m \<and> (tr' = tr \<or> tr' = tr @ [WsSend (subscription_message a)])"
  by (auto simp: send_subscription_def client_send_def split: option.splits if_splits)

lemma send_unsubscription_effect:
  "send_unsubscription t a (m, tr) = (r, m', tr') \<Longrightarrow>
     m' = m \<and> (tr' = tr \<or> tr' = tr @ [WsSend (unsubscription_message a)])"
  by (auto simp: send_unsubscription_def client_send_def split: option.splits if_splits)

lemma replay_effect:
  "replay t xs (m, tr) = (r, m', tr') \<Longrightarrow>
     m' = m \<and> (\<exists>es. tr' = tr @ es \<and> filter is_ws_connect es = [])"
proof (induction xs arbitrary: tr)
  case Nil
  then show ?case by simp
next
  case (Cons a xs)
  obtain r1 m1 tr1 where s: "send_subscription t a (m, tr) = (r1, m1, tr1)"
    by (cases "send_subscription t a (m, tr)") auto
  from send_subscription_effect [OF s]
  have m1: "m1 = m" and tr1: "tr1 = tr \<or> tr1 = tr @ [WsSend (subscription_message a)]"
    by auto
  show ?case
  proof (cases r1)
    case None
    with Cons.prems s m1 have "replay t xs (m, tr1) = (r, m', tr')" by simp
    from Cons.IH [OF this] tr1 show ?thesis by auto
  next
    case (Some e)
    with Cons.prems s m1 tr1 show ?thesis by auto
  qed
qed

lemma connect_effect:
  assumes "connect t url (m, tr) = (r, m', tr')"
  shows "subscribed_addresses m' = subscribed_addresses m \<and> running m' = running m \<and>
         reconnect_delay m' = reconnect_delay m \<and>
         max_reconnect_attempts m' = max_reconnect_attempts m \<and>
         (\<exists>es. tr' = tr @ WsConnect url # es \<and> filter is_ws_connect es = [])"
proof (cases "t_connect t tr url")
  case (Some e)
  with assms show ?thesis
    by (auto simp: connect_def client_connect_def new_client_def)
next
  case None
  let ?cl = "(new_client url)\<lparr>ws_socket := True, ws_connected := True\<rparr>"
  let ?m2 = "m\<lparr>websocket := Some ?cl, is_connected := True, reconnect_attempts := 0\<rparr>"
  obtain r2 m3 tr3 where rp: "replay t (subscribed_addresses m) (?m2, tr @ [WsConnect url]) = (r2, m3, tr3)"
    by (cases "replay t (subscribed_addresses m) (?m2, tr @ [WsConnect url])") auto
  from replay_effect [OF rp] obtain es where es: "m3 = ?m2" "tr3 = (tr @ [WsConnect url]) @ es"
    "filter is_ws_connect es = []"
    by blast
  from assms None rp have "tr' = tr3" "m' = m3 \<or> m' = m3\<lparr>is_connected := False\<rparr>"
    by (auto simp: connect_def client_connect_def new_client_def split: option.splits)
  with es show ?thesis by auto
qed

lemma disconnect_effect:
  "disconnect t (m, tr) = (r, m', tr') \<Longrightarrow>
     subscribed_addresses m' = subscribed_addresses m \<and> running m' = running m \<and>
     reconnect_delay m' = reconnect_delay m \<and>
     max_reconnect_attempts m' = max_reconnect_attempts m \<and>
     reconnect_attempts m' = reconnect_attempts m \<and>
     (tr' = tr \<or> tr' = tr @ [WsClose])"
  by (auto simp: disconnect_def client_disconnect_def split: option.splits if_splits)

lemma listen_effect:
  "listen t (m, tr) = (m', tr') \<Longrightarrow>
     subscribed_addresses m' = subscribed_addresses m \<and> running m' = running m \<and>
     reconnect_delay m' = reconnect_delay m \<and>
     max_reconnect_attempts m' = max_reconnect_attempts m \<and>
     reconnect_attempts m' = reconnect_attempts m \<and>
     is_connected m' = is_connected m \<and>
     (tr' = tr \<or> tr' = tr @ [WsListen])"
  by (auto simp: listen_def client_listen_def split: option.splits if_splits)

lemma handle_error_effect:
  assumes "handle_error t (m, tr) = (r, m', tr')"
  shows "subscribed_addresses m' = subscribed_addresses m \<and>
     reconnect_delay m' = reconnect_delay m \<and>
     max_reconnect_attempts m' = max_reconnect_attempts m \<and>
     (running m' \<longrightarrow> running m) \<and>
     (\<exists>es. tr' = tr @ es \<and> filter is_ws_connect es = [])"
proof -
  obtain r1 m1 tr1 where d: "disconnect t (m, tr) = (r1, m1, tr1)"
    by (cases "disconnect t (m, tr)") auto
  from disconnect_effect [OF d] assms d show ?thesis
    by (auto simp: handle_error_def Let_def split: option.splits if_splits)
qed

lemma run_stopped:
  "\<not> running m \<Longrightarrow> run n t url (m, tr) = (LoopExited, m, tr)"
  by (cases n) simp_all

lemma run_effect:
  "run n t url (m, tr) = (e, m', tr') \<Longrightarrow>
     subscribed_addresses m' = subscribed_addresses m \<and>
     reconnect_delay m' = reconnect_delay m \<and>
     max_reconnect_attempts m' = max_reconnect_attempts m \<and>
     (running m' \<longrightarrow> running m) \<and>
     (\<exists>es. tr' = tr @ es)"
proof (induction n arbitrary: m tr)
  case 0
  then show ?case by (auto split: if_splits)
next
  case (Suc n)
  show ?case
  proof (cases "running m")
    case False
    with Suc.prems show ?thesis by simp
  next
    case True
    obtain r m1 tr1 where c: "connect t url (m, tr) = (r, m1, tr1)"
      by (cases "connect t url (m, tr)") auto
    note ce = connect_effect [OF c]
    show ?thesis
    proof (cases r)
      case None
      obtain m2 tr2 where l: "listen t (m1, tr1) = (m2, tr2)"
        by (cases "listen t (m1, tr1)") auto
      note le = listen_effect [OF l]
      from Suc.prems True c None l have "run n t url (m2, tr2) = (e, m', tr')" by simp
      from Suc.IH [OF this] ce le show ?thesis by auto
    next
      case (Some x)
      obtain r2 m2 tr2 where h: "handle_error t (m1, tr1) = (r2, m2, tr2)"
        by (cases "handle_error t (m1, tr1)") auto
      note he = handle_error_effect [OF h]
      show ?thesis
      proof (cases r2)
        case None
        from Suc.prems True c Some h None have "run n t url (m2, tr2) = (e, m', tr')" by simp
        from Suc.IH [OF this] ce he show ?thesis by auto
      next
        case (Some y)
        with Suc.prems True c \<open>r = Some x\<close> h have "m' = m2" "tr' = tr2" by auto
        with ce he show ?thesis by auto
      qed
    qed
  qed
qed

lemma subscribe_effect:
  "subscribe_address t a (m, tr) = (r, m', tr') \<Longrightarrow>
     m' = m\<lparr>subscribed_addresses := set_add a (subscribed_addresses m)\<rparr> \<and>
     (tr' = tr \<or> is_connected m \<and> tr' = tr @ [WsSend (subscription_message a)])"
  by (auto simp: subscribe_address_def Let_def dest!: send_subscription_effect split: if_splits)

lemma unsubscribe_effect:
  "unsubscribe_address t a (m, tr) = (r, m', tr') \<Longrightarrow>
     m' = m\<lparr>subscribed_addresses := set_discard a (subscribed_addresses m)\<rparr> \<and>
     (tr' = tr \<or> is_connected m \<and> tr' = tr @ [WsSend (unsubscription_message a)])"
  by (auto simp: unsubscribe_address_def Let_def dest!: send_unsubscription_effect split: if_splits)

lemma stop_effect:
  "stop t (m, tr) = (r, m', tr') \<Longrightarrow>
     \<not> running m' \<and> subscribed_addresses m' = subscribed_addresses m \<and>
     reconnect_delay m' = reconnect_delay m \<and>
     max_reconnect_attempts m' = max_reconnect_attempts m \<and>
     (tr' = tr \<or> tr' = tr @ [WsClose])"
  by (auto simp: stop_def dest!: disconnect_effect)

lemma apply_op_policy:
  assumes "apply_op t url x (m, tr) = (m', tr')"
  shows "reconnect_delay m' = reconnect_delay m \<and>
         max_reconnect_attempts m' = max_reconnect_attempts m"
proof (cases x)
  case (Subscribe a)
  with assms subscribe_effect [of t a m tr "fst (subscribe_address t a (m, tr))" m' tr']
  show ?thesis by (cases "subscribe_address t a (m, tr)") auto
next
  case (Unsubscribe a)
  with assms unsubscribe_effect [of t a m tr "fst (unsubscribe_address t a (m, tr))" m' tr']
  show ?thesis by (cases "unsubscribe_address t a (m, tr)") auto
next
  case Stop
  with assms stop_effect [of t m tr "fst (stop t (m, tr))" m' tr']
  show ?thesis by (cases "stop t (m, tr)") auto
next
  case Start
  with assms show ?thesis by (auto simp: start_def)
next
  case (RunTask n)
  with assms run_effect [of n t url m tr "fst (run n t url (m, tr))" m' tr']
  show ?thesis by (cases "run n t url (m, tr)") auto
qed

lemma apply_ops_policy:
  "apply_ops t url xs (m, tr) = (m', tr') \<Longrightarrow>
     reconnect_delay m' = reconnect_delay m \<and>
     max_reconnect_attempts m' = max_reconnect_attempts m"
proof (induction xs arbitrary: m tr)
  case Nil
  then show ?case by simp
next
  case (Cons x xs)
  obtain m1 tr1 where o: "apply_op t url x (m, tr) = (m1, tr1)"
    by (cases "apply_op t url x (m, tr)") auto
  with Cons.prems have "apply_ops t url xs (m1, tr1) = (m', tr')" by simp
  from Cons.IH [OF this] apply_op_policy [OF o] show ?case by simp
qed

lemma backoff_delay_mono: "i \<le> j \<Longrightarrow> backoff_delay b i \<le> backoff_delay b j"
proof -
  assume "i \<le> j"
  then have "(2::nat) ^ i \<le> 2 ^ j" by (simp add: power_increasing)
  then have "b * 2 ^ i \<le> b * 2 ^ j" by (rule mult_le_mono2)
  then show ?thesis by (simp add: backoff_delay_def min_le_iff_disj)
qed

lemma connect_resets:
  assumes "connect t url (m, tr) = (r, m', tr')" "r = None \<or> t_connect t tr url = None"
  shows "reconnect_attempts m' = 0 \<and> (r = None \<longrightarrow> is_connected m')"
proof -
  let ?cl = "(new_client url)\<lparr>ws_socket := True, ws_connected := True\<rparr>"
  let ?m2 = "m\<lparr>websocket := Some ?cl, is_connected := True, reconnect_attempts := 0\<rparr>"
  have n: "t_connect t tr url = None"
    using assms by (auto simp: connect_def client_connect_def new_client_def split: option.splits)
  obtain r2 m3 tr3 where rp: "replay t (subscribed_addresses m) (?m2, tr @ [WsConnect url]) = (r2, m3, tr3)"
    by (cases "replay t (subscribed_addresses m) (?m2, tr @ [WsConnect url])") auto
  from replay_effect [OF rp] have "m3 = ?m2" by simp
  with assms(1) n rp show ?thesis
    by (auto simp: connect_def client_connect_def new_client_def split: option.splits)
qed

lemmas mon_defs = init_monitor_def start_def example_url_def refusing_transport_def ok_transport_def
  connect_def client_connect_def new_client_def handle_error_def disconnect_def
  client_disconnect_def backoff_delay_def Let_def subscribe_address_def unsubscribe_address_def
  set_add_def set_discard_def send_subscription_def send_unsubscription_def client_send_def
  subscription_message_def unsubscription_message_def listen_def client_listen_def stop_def

subsection \<open>Back-off\<close>

text \<open>
  Claim C7. In every state a monitor can reach from its initial state, an error handled at
  fewer than 10 attempts makes the counter \<open>n\<close> one larger and sleeps
  \<open>min (5 * 2 ^ n) 300\<close> seconds. This delay never decreases with \<open>n\<close>, never exceeds
  300, is 10 at the first attempt and 300 at the sixth. A connection that the transport
  accepts sets the counter back to 0, and \<open>_connect\<close> returning normally leaves the
  monitor connected.
\<close>

theorem backoff_schedule:
  assumes "apply_ops t url ops (init_monitor, []) = (m, tr)"
  shows "(\<forall>t' m' tr'. reconnect_attempts m < 10 \<and> handle_error t' (m, tr) = (None, m', tr') \<longrightarrow>
            reconnect_attempts m' = reconnect_attempts m + 1 \<and> running m' = running m \<and>
            tr' \<noteq> [] \<and> last tr' = Sleep (min (5 * 2 ^ reconnect_attempts m') 300)) \<and>
         (\<forall>n. backoff_delay (reconnect_delay m) n = min (5 * 2 ^ n) 300) \<and>
         (\<forall>i j. i \<le> j \<longrightarrow>
            backoff_delay (reconnect_delay m) i \<le> backoff_delay (reconnect_delay m) j) \<and>
         (\<forall>n. backoff_delay (reconnect_delay m) n \<le> 300) \<and>
         backoff_delay (reconnect_delay m) 1 = 10 \<and>
         backoff_delay (reconnect_delay m) 6 = 300 \<and>
         (\<forall>t' url' r m' tr'.
            connect t' url' (m, tr) = (r, m', tr') \<and> (r = None \<or> t_connect t' tr url' = None) \<longrightarrow>
            reconnect_attempts m' = 0 \<and> (r = None \<longrightarrow> is_connected m'))"
proof -
  from apply_ops_policy [OF assms]
  have pol: "reconnect_delay m = 5" "max_reconnect_attempts m = 10"
    by (simp_all add: init_monitor_def)
  have he: "reconnect_attempts m' = reconnect_attempts m + 1 \<and> running m' = running m \<and>
            tr' \<noteq> [] \<and> last tr' = Sleep (min (5 * 2 ^ reconnect_attempts m') 300)"
    if "reconnect_attempts m < 10" "handle_error t' (m, tr) = (None, m', tr')" for t' m' tr'
  proof -
    obtain r1 m1 tr1 where d: "disconnect t' (m, tr) = (r1, m1, tr1)"
      by (cases "disconnect t' (m, tr)") auto
    from disconnect_effect [OF d] that d pol show ?thesis
      by (auto simp: handle_error_def Let_def backoff_delay_def split: option.splits if_splits)
  qed
  have v: "backoff_delay 5 1 = 10" "backoff_delay 5 6 = 300"
    by (simp_all add: backoff_delay_def)
  show ?thesis
    using he pol v backoff_delay_mono [of _ _ 5] connect_resets
    by (simp add: backoff_delay_def) blast
qed

text \<open>Claim C7, at a concrete input: after one refused connection.\<close>

theorem backoff_schedule_witness:
  "apply_ops refusing_transport example_url [Start, RunTask (Suc 0)] (init_monitor, [])
     = (init_monitor\<lparr>running := True, reconnect_attempts := 1\<rparr>,
        [WsConnect example_url, Sleep 10]) \<and>
   handle_error refusing_transport
       (init_monitor\<lparr>running := True, reconnect_attempts := 1\<rparr>, [WsConnect example_url, Sleep 10])
     = (None, init_monitor\<lparr>running := True, reconnect_attempts := 2\<rparr>,
        [WsConnect example_url, Sleep 10, Sleep 20]) \<and>
   Sleep 20 = Sleep (min (5 * 2 ^ 2) 300) \<and>
   backoff_delay 5 1 = 10 \<and> backoff_delay 5 6 = 300 \<and>
   reconnect_attempts
     (fst (snd (connect ok_transport example_url
        (init_monitor\<lparr>running := True, reconnect_attempts := 1\<rparr>,
         [WsConnect example_url, Sleep 10])))) = 0"
proof -
  let ?m = "init_monitor\<lparr>running := True, reconnect_attempts := 1\<rparr>"
  let ?tr = "[WsConnect example_url, Sleep 10]"
  have r: "apply_ops refusing_transport example_url [Start, RunTask (Suc 0)] (init_monitor, [])
     = (?m, ?tr)"
    by (simp add: mon_defs)
  have h: "handle_error refusing_transport (?m, ?tr)
     = (None, init_monitor\<lparr>running := True, reconnect_attempts := 2\<rparr>, ?tr @ [Sleep 20])"
    by (simp add: mon_defs)
  have a: "reconnect_attempts ?m < 10"
    by (simp add: init_monitor_def)
  let ?C = "connect ok_transport example_url (?m, ?tr)"
  have c: "?C = (fst ?C, fst (snd ?C), snd (snd ?C))"
    by simp
  have k: "t_connect ok_transport ?tr example_url = None"
    by (simp add: ok_transport_def)
  note bs = backoff_schedule [OF r]
  have 1: "last (?tr @ [Sleep 20]) = Sleep (min (5 * 2 ^ reconnect_attempts (init_monitor\<lparr>running := True, reconnect_attempts := 2\<rparr>)) 300)"
    using bs [THEN conjunct1, rule_format, of refusing_transport] h a by blast
  have 2: "backoff_delay (reconnect_delay ?m) 1 = 10 \<and> backoff_delay (reconnect_delay ?m) 6 = 300"
    using bs by blast
  have 3: "reconnect_attempts (fst (snd ?C)) = 0"
    using bs [THEN conjunct2, THEN conjunct2, THEN conjunct2, THEN conjunct2, THEN conjunct2,
              THEN conjunct2, rule_format, of ok_transport example_url "fst ?C" "fst (snd ?C)" "snd (snd ?C)"]
      c k by blast
  from r h 1 2 3 show ?thesis by (simp add: init_monitor_def)
qed

subsection \<open>Terminal stop\<close>

lemma refused_iteration:
  assumes "\<forall>tr u. t_connect t tr u \<noteq> None" "running m"
  shows "run (Suc n) t url (m, tr) =
     (if reconnect_attempts m < max_reconnect_attempts m
      then run n t url
             (m\<lparr>websocket := None, is_connected := False,
                reconnect_attempts := reconnect_attempts m + 1\<rparr>,
              tr @ [WsConnect url,
                    Sleep (backoff_delay (reconnect_delay m) (reconnect_attempts m + 1))])
      else run n t url
             (m\<lparr>websocket := None, is_connected := False, running := False\<rparr>,
              tr @ [WsConnect url]))"
proof -
  from assms(1) obtain e where e: "t_connect t tr url = Some e" by fastforce
  with assms(2) show ?thesis
    by (simp add: connect_def client_connect_def new_client_def handle_error_def disconnect_def
          client_disconnect_def Let_def)
qed

lemma run_refused:
  "\<forall>tr u. t_connect t tr u \<noteq> None \<Longrightarrow> running m \<Longrightarrow>
   reconnect_attempts m \<le> max_reconnect_attempts m \<Longrightarrow>
   max_reconnect_attempts m - reconnect_attempts m < n \<Longrightarrow>
   run n t url (m, tr) = (e, m', tr') \<Longrightarrow>
     e = LoopExited \<and> \<not> running m' \<and>
     length (filter is_ws_connect tr') =
       length (filter is_ws_connect tr) + (max_reconnect_attempts m - reconnect_attempts m + 1)"
proof (induction n arbitrary: m tr)
  case 0
  then show ?case by simp
next
  case (Suc n)
  show ?case
  proof (cases "reconnect_attempts m < max_reconnect_attempts m")
    case True
    let ?m1 = "m\<lparr>websocket := None, is_connected := False,
                reconnect_attempts := reconnect_attempts m + 1\<rparr>"
    let ?tr1 = "tr @ [WsConnect url,
                    Sleep (backoff_delay (reconnect_delay m) (reconnect_attempts m + 1))]"
    from Suc.prems(5) True have r: "run n t url (?m1, ?tr1) = (e, m', tr')"
      unfolding refused_iteration [OF Suc.prems(1,2)] by simp
    have "running ?m1" "reconnect_attempts ?m1 \<le> max_reconnect_attempts ?m1"
      "max_reconnect_attempts ?m1 - reconnect_attempts ?m1 < n"
      using Suc.prems True by auto
    from Suc.IH [OF Suc.prems(1) this r] True show ?thesis by auto
  next
    case False
    let ?m1 = "m\<lparr>websocket := None, is_connected := False, running := False\<rparr>"
    from Suc.prems(5) False have "run n t url (?m1, tr @ [WsConnect url]) = (e, m', tr')"
      unfolding refused_iteration [OF Suc.prems(1,2)] by simp
    moreover have "\<not> running ?m1" by simp
    ultimately have "e = LoopExited" "m' = ?m1" "tr' = tr @ [WsConnect url]"
      by (simp_all add: run_stopped)
    with False Suc.prems(3) show ?thesis by simp
  qed
qed

lemma apply_op_stopped:
  assumes "\<not> running m" "\<not> is_start x" "apply_op t url x (m, tr) = (m', tr')"
  shows "\<not> running m' \<and> filter is_ws_connect tr' = filter is_ws_connect tr"
proof (cases x)
  case (Subscribe a)
  with assms subscribe_effect [of t a m tr "fst (subscribe_address t a (m, tr))" m' tr']
  show ?thesis by (cases "subscribe_address t a (m, tr)") auto
next
  case (Unsubscribe a)
  with assms unsubscribe_effect [of t a m tr "fst (unsubscribe_address t a (m, tr))" m' tr']
  show ?thesis by (cases "unsubscribe_address t a (m, tr)") auto
next
  case Stop
  with assms stop_effect [of t m tr "fst (stop t (m, tr))" m' tr']
  show ?thesis by (cases "stop t (m, tr)") auto
next
  case Start
  with assms show ?thesis by simp
next
  case (RunTask n)
  with assms show ?thesis by (simp add: run_stopped)
qed

lemma apply_ops_stopped:
  "\<not> running m \<Longrightarrow> \<not> list_ex is_start xs \<Longrightarrow> apply_ops t url xs (m, tr) = (m', tr') \<Longrightarrow>
     \<not> running m' \<and> filter is_ws_connect tr' = filter is_ws_connect tr"
proof (induction xs arbitrary: m tr)
  case Nil
  then show ?case by simp
next
  case (Cons x xs)
  obtain m1 tr1 where o: "apply_op t url x (m, tr) = (m1, tr1)"
    by (cases "apply_op t url x (m, tr)") auto
  from Cons.prems(2) have nx: "\<not> is_start x" "\<not> list_ex is_start xs" by auto
  from apply_op_stopped [OF Cons.prems(1) nx(1) o]
  have s1: "\<not> running m1" "filter is_ws_connect tr1 = filter is_ws_connect tr" by auto
  from Cons.prems(3) o have "apply_ops t url xs (m1, tr1) = (m', tr')" by simp
  from Cons.IH [OF s1(1) nx(2) this] s1(2) show ?case by simp
qed

text \<open>
  Claim C8. When the transport refuses every connection, a running monitor whose counter
  has not passed the maximum leaves its loop after a bounded number of iterations with
  \<open>is_running\<close> false, having tried to connect once per remaining attempt and once
  more. From then on no call other than \<open>start\<close>, and no further activity of the
  background task, makes it run or open a connection, whatever the transport now does.
\<close>

theorem stops_after_max_attempts:
  assumes "\<forall>tr u. t_connect t tr u \<noteq> None"
    and "running m"
    and "reconnect_attempts m \<le> max_reconnect_attempts m"
    and "max_reconnect_attempts m - reconnect_attempts m < fuel"
    and "run fuel t url (m, tr) = (e, m', tr')"
    and "\<not> list_ex is_start xs"
    and "apply_ops t2 url2 xs (m', tr') = (m'', tr'')"
  shows "e = LoopExited \<and> \<not> is_running m' \<and>
         length (filter is_ws_connect tr') =
           length (filter is_ws_connect tr) +
             (max_reconnect_attempts m - reconnect_attempts m + 1) \<and>
         \<not> is_running m'' \<and> filter is_ws_connect tr'' = filter is_ws_connect tr'"
proof -
  note r = run_refused [OF assms(1-5)]
  then have "\<not> running m'" by simp
  from apply_ops_stopped [OF this assms(6,7)] r show ?thesis
    by (simp add: is_running_def)
qed

text \<open>Claim C8, at a concrete input: eleven refused connections from a fresh monitor.\<close>

theorem stops_after_max_attempts_witness:
  "fst (run 11 refusing_transport example_url (start init_monitor, [])) = LoopExited \<and>
   \<not> is_running (fst (snd (run 11 refusing_transport example_url (start init_monitor, [])))) \<and>
   length (filter is_ws_connect
      (snd (snd (run 11 refusing_transport example_url (start init_monitor, []))))) = 11 \<and>
   \<not> is_running
      (fst (apply_ops ok_transport example_url [Subscribe ''a'', RunTask 3, Stop]
              (snd (run 11 refusing_transport example_url (start init_monitor, []))))) \<and>
   length (filter is_ws_connect
      (snd (apply_ops ok_transport example_url [Subscribe ''a'', RunTask 3, Stop]
              (snd (run 11 refusing_transport example_url (start init_monitor, [])))))) = 11"
proof -
  let ?R = "run 11 refusing_transport example_url (start init_monitor, [])"
  let ?A = "apply_ops ok_transport example_url [Subscribe ''a'', RunTask 3, Stop] (snd ?R)"
  have 1: "\<forall>tr u. t_connect refusing_transport tr u \<noteq> None"
    by (simp add: refusing_transport_def)
  have 2: "running (start init_monitor)"
    by (simp add: start_def init_monitor_def)
  have 3: "reconnect_attempts (start init_monitor) \<le> max_reconnect_attempts (start init_monitor)"
    by (simp add: start_def init_monitor_def)
  have 4: "max_reconnect_attempts (start init_monitor) - reconnect_attempts (start init_monitor) < 11"
    by (simp add: start_def init_monitor_def)
  have 5: "?R = (fst ?R, fst (snd ?R), snd (snd ?R))"
    by simp
  have 6: "\<not> list_ex is_start [Subscribe ''a'', RunTask 3, Stop]"
    by simp
  have 7: "apply_ops ok_transport example_url [Subscribe ''a'', RunTask 3, Stop]
             (fst (snd ?R), snd (snd ?R)) = (fst ?A, snd ?A)"
    by simp
  from stops_after_max_attempts [OF 1 2 3 4 5 6 7]
  show ?thesis by (simp add: start_def init_monitor_def)
qed

subsection \<open>Tracked addresses\<close>

lemma set_add_set: "set (set_add a xs) = insert a (set xs)"
  by (auto simp: set_add_def)

lemma set_discard_set: "set (set_discard a xs) = set xs - {a}"
  by (auto simp: set_discard_def)

lemma set_add_distinct: "distinct xs \<Longrightarrow> distinct (set_add a xs)"
  by (simp add: set_add_def)

lemma set_discard_distinct: "distinct xs \<Longrightarrow> distinct (set_discard a xs)"
  by (simp add: set_discard_def distinct_removeAll)

lemma apply_ops_disconnected:
  "\<not> is_connected m \<Longrightarrow> list_all is_subscription_op xs \<Longrightarrow> distinct (subscribed_addresses m) \<Longrightarrow>
   apply_ops t url xs (m, tr) = (m', tr') \<Longrightarrow>
     tr' = tr \<and> \<not> is_connected m' \<and> distinct (subscribed_addresses m') \<and>
     set (subscribed_addresses m') = implied_set xs (set (subscribed_addresses m))"
proof (induction xs arbitrary: m)
  case Nil
  then show ?case by simp
next
  case (Cons x xs)
  show ?case
  proof (cases x)
    case (Subscribe a)
    let ?m1 = "m\<lparr>subscribed_addresses := set_add a (subscribed_addresses m)\<rparr>"
    from Cons.prems Subscribe have "apply_ops t url xs (?m1, tr) = (m', tr')"
      by (simp add: subscribe_address_def Let_def)
    moreover have "\<not> is_connected ?m1" "list_all is_subscription_op xs"
      "distinct (subscribed_addresses ?m1)"
      using Cons.prems by (simp_all add: set_add_distinct)
    ultimately show ?thesis
      using Cons.IH [of ?m1] Subscribe by (simp add: set_add_set)
  next
    case (Unsubscribe a)
    let ?m1 = "m\<lparr>subscribed_addresses := set_discard a (subscribed_addresses m)\<rparr>"
    from Cons.prems Unsubscribe have "apply_ops t url xs (?m1, tr) = (m', tr')"
      by (simp add: unsubscribe_address_def Let_def)
    moreover have "\<not> is_connected ?m1" "list_all is_subscription_op xs"
      "distinct (subscribed_addresses ?m1)"
      using Cons.prems by (simp_all add: set_discard_distinct)
    ultimately show ?thesis
      using Cons.IH [of ?m1] Unsubscribe by (simp add: set_discard_set)
  next
    case Stop
    with Cons.prems show ?thesis by simp
  next
    case Start
    with Cons.prems show ?thesis by simp
  next
    case (RunTask n)
    with Cons.prems show ?thesis by simp
  qed
qed

lemma replay_sends:
  "websocket m = Some cl \<Longrightarrow> ws_connected cl \<Longrightarrow> ws_socket cl \<Longrightarrow>
   replay t xs (m, tr) = (None, m', tr') \<Longrightarrow>
     tr' = tr @ map (\<lambda>a. WsSend (subscription_message a)) xs"
proof (induction xs arbitrary: tr)
  case Nil
  then show ?case by simp
next
  case (Cons a xs)
  have s: "send_subscription t a (m, tr) =
      (t_send t tr (subscription_message a), m, tr @ [WsSend (subscription_message a)])"
    using Cons.prems(1-3) by (simp add: send_subscription_def client_send_def)
  with Cons.prems(4) have "t_send t tr (subscription_message a) = None"
    by (cases "t_send t tr (subscription_message a)") auto
  with Cons.prems(4) s
  have "replay t xs (m, tr @ [WsSend (subscription_message a)]) = (None, m', tr')"
    by simp
  from Cons.IH [OF Cons.prems(1-3) this] show ?case by simp
qed

lemma connect_sends:
  assumes "connect t url (m, tr) = (None, m', tr')"
  shows "tr' = tr @ WsConnect url # map (\<lambda>a. WsSend (subscription_message a)) (subscribed_addresses m)"
proof -
  let ?cl = "(new_client url)\<lparr>ws_socket := True, ws_connected := True\<rparr>"
  let ?m2 = "m\<lparr>websocket := Some ?cl, is_connected := True, reconnect_attempts := 0\<rparr>"
  have n: "t_connect t tr url = None"
    using assms by (auto simp: connect_def client_connect_def new_client_def split: option.splits)
  obtain r2 m3 tr3 where rp:
    "replay t (subscribed_addresses m) (?m2, tr @ [WsConnect url]) = (r2, m3, tr3)"
    by (cases "replay t (subscribed_addresses m) (?m2, tr @ [WsConnect url])") auto
  with assms n have "r2 = None" "tr' = tr3"
    by (auto simp: connect_def client_connect_def new_client_def split: option.splits)
  with rp replay_sends [of ?m2 ?cl t "subscribed_addresses m" "tr @ [WsConnect url]" m3 tr3]
  show ?thesis by simp
qed

lemma subscription_message_inj:
  "subscription_message a = subscription_message b \<longleftrightarrow> a = b"
  by (auto simp: subscription_message_def)

lemma count_subscriptions:
  "distinct xs \<Longrightarrow>
   count_list (map (\<lambda>a. WsSend (subscription_message a)) xs) (WsSend (subscription_message b))
     = (if b \<in> set xs then 1 else 0)"
  by (induction xs) (auto simp: subscription_message_inj)

text \<open>
  Claim C9. Calls of \<open>subscribe\<close> and \<open>unsubscribe\<close> on a disconnected monitor send
  nothing and leave a duplicate-free collection holding exactly the set the calls stand
  for. When \<open>_connect\<close> then returns normally, the messages it sent are one
  subscription per tracked address: each tracked address once, no other address at all.
\<close>

theorem tracked_set_replayed:
  assumes "\<not> is_connected m"
    and "distinct (subscribed_addresses m)"
    and "list_all is_subscription_op xs"
    and "apply_ops t url xs (m, tr) = (m1, tr1)"
    and "connect t2 url2 (m1, tr1) = (None, m2, tr2)"
  shows "set (subscribed_addresses m1) = implied_set xs (set (subscribed_addresses m)) \<and>
         distinct (subscribed_addresses m1) \<and>
         tr1 = tr \<and>
         subscribed_addresses m2 = subscribed_addresses m1 \<and>
         filter is_ws_send (events_since tr1 tr2)
           = map (\<lambda>a. WsSend (subscription_message a)) (subscribed_addresses m1) \<and>
         (\<forall>a. count_list (events_since tr1 tr2) (WsSend (subscription_message a))
              = (if a \<in> implied_set xs (set (subscribed_addresses m)) then 1 else 0))"
proof -
  from apply_ops_disconnected [OF assms(1,3,2,4)]
  have d: "tr1 = tr" "distinct (subscribed_addresses m1)"
    "set (subscribed_addresses m1) = implied_set xs (set (subscribed_addresses m))"
    by auto
  from connect_sends [OF assms(5)]
  have tr2: "tr2 = tr1 @ WsConnect url2 #
      map (\<lambda>a. WsSend (subscription_message a)) (subscribed_addresses m1)" .
  have f: "filter is_ws_send (map (\<lambda>a. WsSend (subscription_message a)) ys)
      = map (\<lambda>a. WsSend (subscription_message a)) ys" for ys
    by (induction ys) auto
  from connect_effect [OF assms(5)]
  have s: "subscribed_addresses m2 = subscribed_addresses m1" by simp
  show ?thesis
    using d tr2 f s count_subscriptions [OF d(2)] by simp
qed

text \<open>Claim C9, at a concrete input: five calls, then a connection.\<close>

theorem tracked_set_replayed_witness:
  "set (subscribed_addresses (fst (apply_ops refusing_transport example_url
          [Subscribe ''a'', Subscribe ''b'', Subscribe ''a'', Unsubscribe ''b'', Subscribe ''c'']
          (init_monitor, [])))) = {''a'', ''c''} \<and>
   filter is_ws_send
     (events_since []
        (snd (snd (connect ok_transport example_url
           (apply_ops refusing_transport example_url
              [Subscribe ''a'', Subscribe ''b'', Subscribe ''a'', Unsubscribe ''b'', Subscribe ''c'']
              (init_monitor, []))))))
     = [WsSend (subscription_message ''a''), WsSend (subscription_message ''c'')]"
proof -
  let ?xs = "[Subscribe ''a'', Subscribe ''b'', Subscribe ''a'', Unsubscribe ''b'', Subscribe ''c'']"
  let ?m1 = "init_monitor\<lparr>subscribed_addresses := [''a'', ''c'']\<rparr>"
  let ?C = "connect ok_transport example_url (?m1, [])"
  have 1: "\<not> is_connected init_monitor" by (simp add: init_monitor_def)
  have 2: "distinct (subscribed_addresses init_monitor)" by (simp add: init_monitor_def)
  have 3: "list_all is_subscription_op ?xs" by simp
  have 4: "apply_ops refusing_transport example_url ?xs (init_monitor, []) = (?m1, [])"
    by (simp add: mon_defs)
  have c: "fst ?C = None"
    by (simp add: mon_defs)
  have 5: "?C = (None, fst (snd ?C), snd (snd ?C))"
    using c by (cases ?C) simp
  have i: "implied_set ?xs (set (subscribed_addresses init_monitor)) = {''a'', ''c''}"
    by (auto simp: init_monitor_def)
  from tracked_set_replayed [OF 1 2 3 4 5] 4 i
  show ?thesis by (simp add: init_monitor_def)
qed

end
